theory Spec2Isabelle
  imports Main "HOL-Library.Product_Lexorder" "HOL-Library.Char_ord" "HOL-Library.Multiset"
begin

section \<open>The prefix filter: data model and operations\<close>

text \<open>
  The development follows \<^verbatim>\<open>py_stringsimjoin/filter/prefix_filter.py\<close>: the class
  \<^verbatim>\<open>PrefixFilter\<close> with its two methods \<^verbatim>\<open>filter_pair\<close> and \<^verbatim>\<open>filter_tables\<close>.
  The helpers the class imports (\<^verbatim>\<open>get_prefix_length\<close>, the token ordering functions,
  \<^verbatim>\<open>PrefixIndex\<close>, the output row and header builders) live in other modules. The prefix
  length calculator is a parameter of every definition below; the others are modelled
  from the design document, each marked as such.
\<close>

text \<open>
  Exceptions are values. \<^verbatim>\<open>list.index\<close> raises \<^verbatim>\<open>ValueError\<close> for a column name that
  is absent: this is the design document's \<^verbatim>\<open>UnknownField\<close>. A token without a rank is the
  contract violation of the ordering application, and a dictionary lookup of an absent
  key raises \<^verbatim>\<open>KeyError\<close>.
\<close>

datatype error = UnknownField | ContractViolation | KeyError

text \<open>
  A cell of a data frame row: Python's \<^verbatim>\<open>None\<close>, a string or an integer.
\<close>

datatype cell = PyNone | PyStr string | PyInt int

text \<open>Python's \<^verbatim>\<open>str\<close> on a cell; \<^verbatim>\<open>str(None)\<close> is the four characters \<^verbatim>\<open>None\<close>.\<close>

fun nat_str :: "nat \<Rightarrow> string" where
  "nat_str n =
     (if n < 10 then [''0123456789'' ! n]
      else nat_str (n div 10) @ [''0123456789'' ! (n mod 10)])"

declare nat_str.simps [simp del]

fun py_str :: "cell \<Rightarrow> string" where
  "py_str PyNone = ''None''"
| "py_str (PyStr s) = s"
| "py_str (PyInt i) = (if i < 0 then CHR ''-'' # nat_str (nat (- i)) else nat_str (nat i))"

text \<open>
  The filter object: the three attributes set by \<^verbatim>\<open>__init__\<close>. Tokens are of any
  linearly ordered type (Python strings in the source).
\<close>

record ('t, 'm, 'th) PrefixFilter =
  tokenizer :: "string \<Rightarrow> 't list"
  sim_measure_type :: 'm
  threshold :: 'th

text \<open>
  \<^verbatim>\<open>list(set(xs))\<close> and \<^verbatim>\<open>set(xs)\<close>: the distinct elements of \<^verbatim>\<open>xs\<close>. Python leaves
  the iteration order of a set open; every consumer below sorts the tokens by rank.
\<close>

definition py_set :: "'a list \<Rightarrow> 'a list" where
  "py_set xs = remdups xs"

text \<open>\<^verbatim>\<open>s.add(x)\<close> on a set kept as a duplicate-free list.\<close>

definition set_add :: "'a list \<Rightarrow> 'a \<Rightarrow> 'a list" where
  "set_add xs x = (if x \<in> set xs then xs else xs @ [x])"

text \<open>
  The slice \<^verbatim>\<open>xs[0:k]\<close>: a negative \<^verbatim>\<open>k\<close> counts from the end, and a bound outside
  the list is clipped.
\<close>

definition py_prefix :: "'a list \<Rightarrow> int \<Rightarrow> 'a list" where
  "py_prefix xs k =
     (if k < 0 then take (nat (int (length xs) + k)) xs else take (nat k) xs)"

subsection \<open>Token ordering\<close>

text \<open>
  Modelled from the spec: \<^verbatim>\<open>gen_token_ordering_for_lists\<close>, \<^verbatim>\<open>gen_token_ordering_for_tables\<close>
  and \<^verbatim>\<open>order_using_token_ordering\<close> of \<^verbatim>\<open>py_stringsimjoin/utils/token_ordering.py\<close> are
  missing. The design document (4.1) counts, for each distinct token, the token sets that
  contain it, sorts the distinct tokens by (frequency ascending, token ascending) and
  assigns the ranks \<open>0..N-1\<close> in that order.
\<close>

definition doc_freq :: "'t list list \<Rightarrow> 't \<Rightarrow> nat" where
  "doc_freq tss t = length (filter (\<lambda>ts. t \<in> set ts) tss)"

definition ranked_tokens :: "('t::linorder) list list \<Rightarrow> 't list" where
  "ranked_tokens tss = sort_key (\<lambda>t. (doc_freq tss t, t)) (remdups (concat tss))"

definition gen_token_ordering_for_lists :: "('t::linorder) list list \<Rightarrow> ('t \<rightharpoonup> nat)" where
  "gen_token_ordering_for_lists token_lists =
     (let toks = ranked_tokens token_lists in map_of (zip toks [0..<length toks]))"

text \<open>
  Modelled from the spec: the table variant applies the tokenizer to the text field of
  every record of every table and deduplicates the tokens per record (4.5 step 2). The
  text of a cell is its \<^verbatim>\<open>str\<close>, as in the probing loop of \<^verbatim>\<open>filter_tables\<close>.
\<close>

definition table_token_sets ::
  "cell list list list \<Rightarrow> nat list \<Rightarrow> (string \<Rightarrow> 't list) \<Rightarrow> 't list list" where
  "table_token_sets table_list attr_list tok =
     concat (map (\<lambda>(tbl, i). map (\<lambda>row. py_set (tok (py_str (row ! i)))) tbl)
                 (zip table_list attr_list))"

definition gen_token_ordering_for_tables ::
  "cell list list list \<Rightarrow> nat list \<Rightarrow> (string \<Rightarrow> ('t::linorder) list) \<Rightarrow> ('t \<rightharpoonup> nat)" where
  "gen_token_ordering_for_tables table_list attr_list tok =
     gen_token_ordering_for_lists (table_token_sets table_list attr_list tok)"

text \<open>
  Modelled from the spec: the ordering application (4.2) renders a token set as the
  sequence sorted by ascending rank, and fails fast on a token that has no rank.
\<close>

definition order_using_token_ordering ::
  "'t list \<Rightarrow> ('t \<rightharpoonup> nat) \<Rightarrow> error + 't list" where
  "order_using_token_ordering tokens token_ordering =
     (if \<exists>t \<in> set tokens. token_ordering t = None then Inl ContractViolation
      else Inr (sort_key (\<lambda>t. the (token_ordering t)) tokens))"

subsection \<open>The single-pair predicate\<close>

text \<open>
  \<^verbatim>\<open>filter_pair\<close>, lines 29 to 61. A string argument is \<open>None\<close> for Python's \<^verbatim>\<open>None\<close>;
  \<^verbatim>\<open>not s\<close> holds for \<^verbatim>\<open>None\<close> and for the empty string. The first argument is
  \<^verbatim>\<open>get_prefix_length\<close>, taken as a parameter: its result is a Python integer.
\<close>

definition py_not :: "string option \<Rightarrow> bool" where
  "py_not s = (case s of None \<Rightarrow> True | Some x \<Rightarrow> x = [])"

definition filter_pair ::
  "(nat \<Rightarrow> 'm \<Rightarrow> 'th \<Rightarrow> int) \<Rightarrow> ('t::linorder, 'm, 'th) PrefixFilter \<Rightarrow>
   string option \<Rightarrow> string option \<Rightarrow> error + bool" where
  "filter_pair get_prefix_length self lstring rstring =
     (if py_not lstring \<or> py_not rstring then Inr True
      else
        let ltokens = py_set (tokenizer self (the lstring));
            rtokens = py_set (tokenizer self (the rstring));
            token_ordering = gen_token_ordering_for_lists [ltokens, rtokens]
        in case order_using_token_ordering ltokens token_ordering of
             Inl e \<Rightarrow> Inl e
           | Inr ordered_ltokens \<Rightarrow>
        (case order_using_token_ordering rtokens token_ordering of
             Inl e \<Rightarrow> Inl e
           | Inr ordered_rtokens \<Rightarrow>
        (let l_prefix_length = get_prefix_length (length ordered_ltokens)
                                 (sim_measure_type self) (threshold self);
             r_prefix_length = get_prefix_length (length ordered_rtokens)
                                 (sim_measure_type self) (threshold self);
             prefix_overlap = filter (\<lambda>t. t \<in> set (py_prefix ordered_rtokens r_prefix_length))
                                (py_set (py_prefix ordered_ltokens l_prefix_length))
         in if length prefix_overlap > 0 then Inr False else Inr True)))"

text \<open>
  The ordered token sequence of one side of a pair, in the words of the design document
  (3, 4.1): the deduplicated tokens of the string, sorted by the number of the two token
  sets that contain the token and then by the token itself.
\<close>

definition pair_ordered_tokens ::
  "(string \<Rightarrow> ('t::linorder) list) \<Rightarrow> string \<Rightarrow> string \<Rightarrow> string \<Rightarrow> 't list" where
  "pair_ordered_tokens tok l r s =
     sort_key (\<lambda>t. (doc_freq [remdups (tok l), remdups (tok r)] t, t)) (remdups (tok s))"

subsection \<open>Tables, dictionaries and the prefix index\<close>

text \<open>
  A data frame: the column names and the rows, each row a tuple of cells as
  \<^verbatim>\<open>itertuples(index=False)\<close> yields it.
\<close>

record data_frame =
  columns :: "string list"
  rows :: "cell list list"

text \<open>\<^verbatim>\<open>columns.index(attr)\<close>: the first position of the name, or the exception.\<close>

fun list_index :: "string list \<Rightarrow> string \<Rightarrow> error + nat" where
  "list_index [] a = Inl UnknownField"
| "list_index (c # cs) a =
     (if c = a then Inr 0
      else case list_index cs a of Inl e \<Rightarrow> Inl e | Inr i \<Rightarrow> Inr (Suc i))"

text \<open>The loop that appends \<^verbatim>\<open>columns.index(attr)\<close> for every output attribute.\<close>

fun attr_indices :: "string list \<Rightarrow> string list \<Rightarrow> error + nat list" where
  "attr_indices cols [] = Inr []"
| "attr_indices cols (a # as) =
     (case list_index cols a of
        Inl e \<Rightarrow> Inl e
      | Inr i \<Rightarrow> (case attr_indices cols as of Inl e \<Rightarrow> Inl e | Inr is \<Rightarrow> Inr (i # is)))"

text \<open>
  A Python dictionary as an association list in insertion order, the iteration order of
  \<^verbatim>\<open>dict\<close> since Python 3.7: \<^verbatim>\<open>d[k] = v\<close> replaces the value of a key that is present,
  in place, and appends a new key at the end.
\<close>

fun dict_set :: "('k \<times> 'v) list \<Rightarrow> 'k \<Rightarrow> 'v \<Rightarrow> ('k \<times> 'v) list" where
  "dict_set [] k v = [(k, v)]"
| "dict_set ((k', v') # d) k v =
     (if k' = k then (k, v) # d else (k', v') # dict_set d k v)"

definition dict_values :: "('k \<times> 'v) list \<Rightarrow> 'v list" where
  "dict_values d = map snd d"

text \<open>The two loops that build \<^verbatim>\<open>ltable_dict\<close> and \<^verbatim>\<open>rtable_dict\<close>, lines 103 to 111.\<close>

definition build_table_dict :: "nat \<Rightarrow> cell list list \<Rightarrow> (cell \<times> cell list) list" where
  "build_table_dict key_attr_index table_rows =
     fold (\<lambda>row d. dict_set d (row ! key_attr_index) row) table_rows []"

text \<open>
  Modelled from the spec: \<^verbatim>\<open>PrefixIndex\<close> of \<^verbatim>\<open>py_stringsimjoin/index/prefix_index.py\<close> is
  missing. The design document (4.4) has \<^verbatim>\<open>build\<close> skip every record whose text field is
  empty or null and, for every other record, add the record's key to the candidate set of
  every token of the prefix of its ordered token sequence; \<^verbatim>\<open>probe\<close> returns the candidate
  set of a token, the empty set for a token never seen.
\<close>

definition cell_empty :: "cell \<Rightarrow> bool" where
  "cell_empty c = (c = PyNone \<or> c = PyStr [])"

definition probe :: "('t \<rightharpoonup> cell list) \<Rightarrow> 't \<Rightarrow> cell list" where
  "probe idx token = (case idx token of None \<Rightarrow> [] | Some ks \<Rightarrow> ks)"

definition index_insert :: "cell \<Rightarrow> 't \<Rightarrow> ('t \<rightharpoonup> cell list) \<Rightarrow> ('t \<rightharpoonup> cell list)" where
  "index_insert key token idx = idx(token \<mapsto> set_add (probe idx token) key)"

fun prefix_index_build ::
  "(nat \<Rightarrow> 'm \<Rightarrow> 'th \<Rightarrow> int) \<Rightarrow> cell list list \<Rightarrow> nat \<Rightarrow> nat \<Rightarrow> (string \<Rightarrow> 't list) \<Rightarrow>
   'm \<Rightarrow> 'th \<Rightarrow> ('t \<rightharpoonup> nat) \<Rightarrow> ('t \<rightharpoonup> cell list) \<Rightarrow> error + ('t \<rightharpoonup> cell list)" where
  "prefix_index_build get_prefix_length [] key_i text_i tok m th token_ordering idx = Inr idx"
| "prefix_index_build get_prefix_length (row # records) key_i text_i tok m th token_ordering idx =
     (if cell_empty (row ! text_i)
      then prefix_index_build get_prefix_length records key_i text_i tok m th token_ordering idx
      else case order_using_token_ordering (py_set (tok (py_str (row ! text_i)))) token_ordering of
             Inl e \<Rightarrow> Inl e
           | Inr ordered_tokens \<Rightarrow>
               prefix_index_build get_prefix_length records key_i text_i tok m th token_ordering
                 (fold (index_insert (row ! key_i))
                    (py_prefix ordered_tokens (get_prefix_length (length ordered_tokens) m th))
                    idx))"

text \<open>
  Modelled from the spec: \<^verbatim>\<open>get_output_row_from_tables\<close> and
  \<^verbatim>\<open>get_output_header_from_tables\<close> of \<^verbatim>\<open>py_stringsimjoin/utils/helper_functions.py\<close> are
  missing. An output row holds the candidate identifier, the left key, the right key and
  the projected fields of both records (4.5 step 4d); the header holds the identifier
  column, the key names and the output field names, prefixed by origin (4.5 step 5, 6).
\<close>

definition get_output_row_from_tables ::
  "int \<Rightarrow> cell list \<Rightarrow> cell list \<Rightarrow> cell \<Rightarrow> cell \<Rightarrow> nat list \<Rightarrow> nat list \<Rightarrow> cell list" where
  "get_output_row_from_tables candset_id l_row r_row l_key r_key l_out_idx r_out_idx =
     [PyInt candset_id, l_key, r_key] @ map (\<lambda>i. l_row ! i) l_out_idx
       @ map (\<lambda>i. r_row ! i) r_out_idx"

definition get_output_header_from_tables ::
  "string \<Rightarrow> string \<Rightarrow> string \<Rightarrow> string list option \<Rightarrow> string list option \<Rightarrow>
   string \<Rightarrow> string \<Rightarrow> string list" where
  "get_output_header_from_tables id_attr l_key_attr r_key_attr l_out_attrs r_out_attrs
       l_out_prefix r_out_prefix =
     [id_attr, l_out_prefix @ l_key_attr, r_out_prefix @ r_key_attr]
       @ map (\<lambda>a. l_out_prefix @ a) (case l_out_attrs of None \<Rightarrow> [] | Some as \<Rightarrow> as)
       @ map (\<lambda>a. r_out_prefix @ a) (case r_out_attrs of None \<Rightarrow> [] | Some as \<Rightarrow> as)"

subsection \<open>The batch filter\<close>

text \<open>
  The probing of one right record, lines 145 to 148: the union of the probe results over
  the prefix tokens, in a set. The loop over the candidates that follows iterates this
  set; Python leaves the order open, the model takes the order of insertion.
\<close>

definition find_candidates :: "('t \<rightharpoonup> cell list) \<Rightarrow> 't list \<Rightarrow> cell list" where
  "find_candidates idx prefix_tokens =
     fold (\<lambda>token candidates. fold (\<lambda>cand cs. set_add cs cand) (probe idx token) candidates)
          prefix_tokens []"

text \<open>
  The loop over the candidates, lines 150 to 161. The state is the list of output rows
  and \<^verbatim>\<open>candset_id\<close>. \<^verbatim>\<open>ltable_dict[cand]\<close> is a dictionary lookup.
\<close>

fun emit_rows ::
  "bool \<Rightarrow> (cell \<times> cell list) list \<Rightarrow> cell list \<Rightarrow> cell \<Rightarrow> nat list \<Rightarrow> nat list \<Rightarrow>
   cell list \<Rightarrow> cell list list \<times> int \<Rightarrow> error + cell list list \<times> int" where
  "emit_rows has_output_attributes ltable_dict r_row r_id l_idx r_idx [] st = Inr st"
| "emit_rows has_output_attributes ltable_dict r_row r_id l_idx r_idx (cand # cands)
       (output_rows, candset_id) =
     (if has_output_attributes
      then case map_of ltable_dict cand of
             None \<Rightarrow> Inl KeyError
           | Some l_row \<Rightarrow>
               emit_rows has_output_attributes ltable_dict r_row r_id l_idx r_idx cands
                 (output_rows @ [get_output_row_from_tables candset_id l_row r_row cand r_id
                                   l_idx r_idx],
                  candset_id + 1)
      else emit_rows has_output_attributes ltable_dict r_row r_id l_idx r_idx cands
             (output_rows @ [[PyInt candset_id, cand, r_id]], candset_id + 1))"

text \<open>The loop over \<^verbatim>\<open>rtable_dict.values()\<close>, lines 128 to 163.\<close>

fun probe_rows ::
  "(nat \<Rightarrow> 'm \<Rightarrow> 'th \<Rightarrow> int) \<Rightarrow> ('t, 'm, 'th) PrefixFilter \<Rightarrow> ('t \<rightharpoonup> nat) \<Rightarrow>
   ('t \<rightharpoonup> cell list) \<Rightarrow> bool \<Rightarrow> (cell \<times> cell list) list \<Rightarrow> nat \<Rightarrow> nat \<Rightarrow>
   nat list \<Rightarrow> nat list \<Rightarrow> cell list list \<Rightarrow> cell list list \<times> int \<Rightarrow>
   error + cell list list \<times> int" where
  "probe_rows get_prefix_length self token_ordering prefix_index has_output_attributes
       ltable_dict r_key_attr_index r_filter_attr_index l_idx r_idx [] st = Inr st"
| "probe_rows get_prefix_length self token_ordering prefix_index has_output_attributes
       ltable_dict r_key_attr_index r_filter_attr_index l_idx r_idx (r_row # r_rows) st =
     (let r_id = r_row ! r_key_attr_index;
          r_string = py_str (r_row ! r_filter_attr_index)
      in if r_string = []
         then probe_rows get_prefix_length self token_ordering prefix_index
                has_output_attributes ltable_dict r_key_attr_index r_filter_attr_index
                l_idx r_idx r_rows st
         else
           case order_using_token_ordering (py_set (tokenizer self r_string)) token_ordering of
             Inl e \<Rightarrow> Inl e
           | Inr r_ordered_tokens \<Rightarrow>
               (let r_prefix_length = get_prefix_length (length r_ordered_tokens)
                                        (sim_measure_type self) (threshold self);
                    candidates = find_candidates prefix_index
                                   (py_prefix r_ordered_tokens r_prefix_length)
                in case emit_rows has_output_attributes ltable_dict r_row r_id l_idx r_idx
                          candidates st of
                     Inl e \<Rightarrow> Inl e
                   | Inr st' \<Rightarrow>
                       probe_rows get_prefix_length self token_ordering prefix_index
                         has_output_attributes ltable_dict r_key_attr_index
                         r_filter_attr_index l_idx r_idx r_rows st'))"

text \<open>
  The column lookups of one table, lines 81 to 101. The left side tests
  \<^verbatim>\<open>l_out_attrs is not None\<close> and the right side the truth value of \<^verbatim>\<open>r_out_attrs\<close>; both
  leave the index list empty for \<^verbatim>\<open>None\<close> and for the empty list.
\<close>

definition find_columns ::
  "string list \<Rightarrow> string \<Rightarrow> string \<Rightarrow> string list option \<Rightarrow> error + nat \<times> nat \<times> nat list" where
  "find_columns cols key_attr filter_attr out_attrs =
     (case list_index cols key_attr of
        Inl e \<Rightarrow> Inl e
      | Inr key_attr_index \<Rightarrow>
     (case list_index cols filter_attr of
        Inl e \<Rightarrow> Inl e
      | Inr filter_attr_index \<Rightarrow>
     (case (case out_attrs of None \<Rightarrow> Inr [] | Some as \<Rightarrow> attr_indices cols as) of
        Inl e \<Rightarrow> Inl e
      | Inr out_attrs_indices \<Rightarrow> Inr (key_attr_index, filter_attr_index, out_attrs_indices))))"

text \<open>
  Everything after the column lookups, lines 103 to 172: the two dictionaries, the token
  ordering, the prefix index, the probing loop and the output table.
\<close>

definition filter_tables_body ::
  "(nat \<Rightarrow> 'm \<Rightarrow> 'th \<Rightarrow> int) \<Rightarrow> ('t::linorder, 'm, 'th) PrefixFilter \<Rightarrow>
   data_frame \<Rightarrow> data_frame \<Rightarrow> nat \<times> nat \<times> nat list \<Rightarrow> nat \<times> nat \<times> nat list \<Rightarrow>
   bool \<Rightarrow> string list \<Rightarrow> error + data_frame" where
  "filter_tables_body get_prefix_length self ltable rtable l_cols r_cols
       has_output_attributes output_header =
     (case (l_cols, r_cols) of
        ((l_key_attr_index, l_filter_attr_index, l_out_attrs_indices),
         (r_key_attr_index, r_filter_attr_index, r_out_attrs_indices)) \<Rightarrow>
     (let ltable_dict = build_table_dict l_key_attr_index (rows ltable);
          rtable_dict = build_table_dict r_key_attr_index (rows rtable);
          token_ordering = gen_token_ordering_for_tables
                             [dict_values ltable_dict, dict_values rtable_dict]
                             [l_filter_attr_index, r_filter_attr_index] (tokenizer self)
      in case prefix_index_build get_prefix_length (dict_values ltable_dict)
                l_key_attr_index l_filter_attr_index (tokenizer self)
                (sim_measure_type self) (threshold self) token_ordering Map.empty of
           Inl e \<Rightarrow> Inl e
         | Inr prefix_index \<Rightarrow>
             (case probe_rows get_prefix_length self token_ordering prefix_index
                     has_output_attributes ltable_dict r_key_attr_index r_filter_attr_index
                     l_out_attrs_indices r_out_attrs_indices (dict_values rtable_dict)
                     ([], 1) of
                Inl e \<Rightarrow> Inl e
              | Inr (output_rows, candset_id) \<Rightarrow>
                  Inr \<lparr>columns = output_header, rows = output_rows\<rparr>)))"

text \<open>\<^verbatim>\<open>filter_tables\<close>, lines 63 to 172.\<close>

definition filter_tables ::
  "(nat \<Rightarrow> 'm \<Rightarrow> 'th \<Rightarrow> int) \<Rightarrow> ('t::linorder, 'm, 'th) PrefixFilter \<Rightarrow>
   data_frame \<Rightarrow> data_frame \<Rightarrow> string \<Rightarrow> string \<Rightarrow> string \<Rightarrow> string \<Rightarrow>
   string list option \<Rightarrow> string list option \<Rightarrow> string \<Rightarrow> string \<Rightarrow> error + data_frame" where
  "filter_tables get_prefix_length self ltable rtable l_key_attr r_key_attr
       l_filter_attr r_filter_attr l_out_attrs r_out_attrs l_out_prefix r_out_prefix =
     (case find_columns (columns ltable) l_key_attr l_filter_attr l_out_attrs of
        Inl e \<Rightarrow> Inl e
      | Inr l_cols \<Rightarrow>
     (case find_columns (columns rtable) r_key_attr r_filter_attr r_out_attrs of
        Inl e \<Rightarrow> Inl e
      | Inr r_cols \<Rightarrow>
          filter_tables_body get_prefix_length self ltable rtable l_cols r_cols
            (l_out_attrs \<noteq> None \<or> r_out_attrs \<noteq> None)
            (get_output_header_from_tables ''_id'' l_key_attr r_key_attr
               l_out_attrs r_out_attrs l_out_prefix r_out_prefix)))"

subsection \<open>Closed forms of the loops\<close>

text \<open>
  The definitions of this subsection restate what the loops above compute; the lemmas
  below prove that they agree with the loops.
\<close>

text \<open>
  The rows of the output, in closed form: the items of a list numbered from
  \<^verbatim>\<open>candset_id\<close> on, one identifier per item.
\<close>

fun number_rows :: "(int \<Rightarrow> 'a \<Rightarrow> 'b) \<Rightarrow> int \<Rightarrow> 'a list \<Rightarrow> 'b list" where
  "number_rows f cid [] = []"
| "number_rows f cid (x # xs) = f cid x # number_rows f (cid + 1) xs"

text \<open>
  The output row of one candidate pair with its identifier, as the loop body of
  \<^verbatim>\<open>emit_rows\<close> appends it.
\<close>

definition make_row ::
  "bool \<Rightarrow> (cell \<times> cell list) list \<Rightarrow> nat \<Rightarrow> nat list \<Rightarrow> nat list \<Rightarrow> int \<Rightarrow> cell \<times> cell list \<Rightarrow> cell list" where
  "make_row has_out ltable_dict rk li ri cid p =
     (case p of (cand, r_row) \<Rightarrow>
        if has_out
        then get_output_row_from_tables cid (the (map_of ltable_dict cand)) r_row cand (r_row ! rk) li ri
        else [PyInt cid, cand, r_row ! rk])"

text \<open>
  The candidate set of one right record, as one iteration of \<^verbatim>\<open>probe_rows\<close> computes
  it: empty for a record that is skipped.
\<close>

definition row_candidates ::
  "(nat \<Rightarrow> 'm \<Rightarrow> 'th \<Rightarrow> int) \<Rightarrow> ('t, 'm, 'th) PrefixFilter \<Rightarrow> ('t \<rightharpoonup> nat) \<Rightarrow>
   ('t \<rightharpoonup> cell list) \<Rightarrow> nat \<Rightarrow> cell list \<Rightarrow> cell list" where
  "row_candidates gpl self ord idx rf r_row =
     (if py_str (r_row ! rf) = [] then []
      else case order_using_token_ordering (py_set (tokenizer self (py_str (r_row ! rf)))) ord of
             Inl e \<Rightarrow> []
           | Inr ot \<Rightarrow> find_candidates idx
                        (py_prefix ot (gpl (length ot) (sim_measure_type self) (threshold self))))"

text \<open>
  The candidate pairs of a list of right records, in iteration order.
\<close>

definition candidate_pairs ::
  "(nat \<Rightarrow> 'm \<Rightarrow> 'th \<Rightarrow> int) \<Rightarrow> ('t, 'm, 'th) PrefixFilter \<Rightarrow> ('t \<rightharpoonup> nat) \<Rightarrow>
   ('t \<rightharpoonup> cell list) \<Rightarrow> nat \<Rightarrow> cell list list \<Rightarrow> (cell \<times> cell list) list" where
  "candidate_pairs gpl self ord idx rf r_rows =
     concat (map (\<lambda>r_row. map (\<lambda>cand. (cand, r_row)) (row_candidates gpl self ord idx rf r_row)) r_rows)"

text \<open>
  The dictionary loop started from any dictionary.
\<close>

definition dict_of_rows :: "nat \<Rightarrow> cell list list \<Rightarrow> (cell \<times> cell list) list \<Rightarrow> (cell \<times> cell list) list" where
  "dict_of_rows ki rs d = fold (\<lambda>row d. dict_set d (row ! ki) row) rs d"

text \<open>
  The records of a table that the filter works on: \<^verbatim>\<open>table_dict.values()\<close>.
\<close>

definition table_records :: "nat \<Rightarrow> data_frame \<Rightarrow> cell list list" where
  "table_records key_attr_index tbl = dict_values (build_table_dict key_attr_index (rows tbl))"

text \<open>
  The token sets of both tables, over which the token ordering is built.
\<close>

definition tables_token_sets ::
  "('t, 'm, 'th) PrefixFilter \<Rightarrow> nat \<Rightarrow> nat \<Rightarrow> nat \<Rightarrow> nat \<Rightarrow> data_frame \<Rightarrow> data_frame \<Rightarrow> 't list list" where
  "tables_token_sets self lk lf rk rf ltable rtable =
     table_token_sets [table_records lk ltable, table_records rk rtable] [lf, rf] (tokenizer self)"

text \<open>
  The prefix index that \<^verbatim>\<open>filter_tables\<close> builds over the left records.
\<close>

definition built_index ::
  "(nat \<Rightarrow> 'm \<Rightarrow> 'th \<Rightarrow> int) \<Rightarrow> ('t::linorder, 'm, 'th) PrefixFilter \<Rightarrow> nat \<Rightarrow> nat \<Rightarrow> nat \<Rightarrow> nat \<Rightarrow>
   data_frame \<Rightarrow> data_frame \<Rightarrow> ('t \<rightharpoonup> cell list)" where
  "built_index gpl self lk lf rk rf ltable rtable =
     (case prefix_index_build gpl (table_records lk ltable) lk lf (tokenizer self)
             (sim_measure_type self) (threshold self)
             (gen_token_ordering_for_lists (tables_token_sets self lk lf rk rf ltable rtable))
             Map.empty of
        Inl e \<Rightarrow> Map.empty
      | Inr idx \<Rightarrow> idx)"

text \<open>
  The candidate set of one right record under the ordering and the index of the call.
\<close>

definition table_candidates ::
  "(nat \<Rightarrow> 'm \<Rightarrow> 'th \<Rightarrow> int) \<Rightarrow> ('t::linorder, 'm, 'th) PrefixFilter \<Rightarrow> nat \<Rightarrow> nat \<Rightarrow> nat \<Rightarrow> nat \<Rightarrow>
   data_frame \<Rightarrow> data_frame \<Rightarrow> cell list \<Rightarrow> cell list" where
  "table_candidates gpl self lk lf rk rf ltable rtable r_row =
     row_candidates gpl self
       (gen_token_ordering_for_lists (tables_token_sets self lk lf rk rf ltable rtable))
       (built_index gpl self lk lf rk rf ltable rtable) rf r_row"

text \<open>
  The candidate pairs of the call, in the iteration order of the right dictionary.
\<close>

definition table_candidate_pairs ::
  "(nat \<Rightarrow> 'm \<Rightarrow> 'th \<Rightarrow> int) \<Rightarrow> ('t::linorder, 'm, 'th) PrefixFilter \<Rightarrow> nat \<Rightarrow> nat \<Rightarrow> nat \<Rightarrow> nat \<Rightarrow>
   data_frame \<Rightarrow> data_frame \<Rightarrow> (cell \<times> cell list) list" where
  "table_candidate_pairs gpl self lk lf rk rf ltable rtable =
     concat (map (\<lambda>r_row. map (\<lambda>cand. (cand, r_row))
                            (table_candidates gpl self lk lf rk rf ltable rtable r_row))
                 (table_records rk rtable))"

text \<open>
  The prefix of a record in the words of the design document (3, 4.3): the tokens of the
  text, deduplicated, sorted by (frequency, token), cut at the prefix length.
\<close>

definition table_prefix ::
  "(nat \<Rightarrow> 'm \<Rightarrow> 'th \<Rightarrow> int) \<Rightarrow> ('t::linorder, 'm, 'th) PrefixFilter \<Rightarrow> 't list list \<Rightarrow> cell \<Rightarrow> 't list" where
  "table_prefix gpl self tss c =
     (let ot = sort_key (\<lambda>t. (doc_freq tss t, t)) (remdups (tokenizer self (py_str c)))
      in py_prefix ot (gpl (length ot) (sim_measure_type self) (threshold self)))"

text \<open>
  The keys of the left records that share a prefix token with a right record (4.5 step 4).
  A left record is left out when its text field is null or the empty string, a right
  record when the \<^verbatim>\<open>str\<close> of its text field is empty.
\<close>

definition matching_left_keys ::
  "(nat \<Rightarrow> 'm \<Rightarrow> 'th \<Rightarrow> int) \<Rightarrow> ('t::linorder, 'm, 'th) PrefixFilter \<Rightarrow> 't list list \<Rightarrow>
   nat \<Rightarrow> nat \<Rightarrow> cell list list \<Rightarrow> nat \<Rightarrow> cell list \<Rightarrow> cell list" where
  "matching_left_keys gpl self tss lk lf l_rows rf r_row =
     (if py_str (r_row ! rf) = [] then []
      else map (\<lambda>l_row. l_row ! lk)
             (filter (\<lambda>l_row. \<not> cell_empty (l_row ! lf) \<and>
                        (\<exists>t \<in> set (table_prefix gpl self tss (l_row ! lf)).
                           t \<in> set (table_prefix gpl self tss (r_row ! rf))))
                     l_rows))"

text \<open>
  The names that \<^verbatim>\<open>filter_tables\<close> looks up in one table are all among its columns.
\<close>

definition names_present :: "string list \<Rightarrow> string \<Rightarrow> string \<Rightarrow> string list option \<Rightarrow> bool" where
  "names_present cols key_attr filter_attr out_attrs =
     (key_attr \<in> set cols \<and> filter_attr \<in> set cols \<and>
      (case out_attrs of None \<Rightarrow> True | Some as \<Rightarrow> set as \<subseteq> set cols))"

section \<open>Properties of the token ordering\<close>

text \<open>
  Two keys that compare the elements of a list alike sort it alike.
\<close>

lemma insort_key_cong_rel:
  "(\<forall>y \<in> set ys. (f x \<le> f y) = (g x \<le> g y)) \<Longrightarrow> insort_key f x ys = insort_key g x ys"
  by (induction ys) auto

lemma sort_key_cong_rel:
  "(\<forall>x \<in> set xs. \<forall>y \<in> set xs. (f x \<le> f y) = (g x \<le> g y)) \<Longrightarrow> sort_key f xs = sort_key g xs"
proof (induction xs)
  case Nil
  then show ?case by simp
next
  case (Cons x xs)
  have "sort_key f xs = sort_key g xs" using Cons by simp
  moreover have "insort_key f x (sort_key g xs) = insort_key g x (sort_key g xs)"
    by (rule insort_key_cong_rel) (use Cons.prems in simp)
  ultimately show ?case by simp
qed

lemma map_of_zip_upt:
  "distinct xs \<Longrightarrow> i < length xs \<Longrightarrow> map_of (zip xs [0..<length xs]) (xs ! i) = Some i"
  by (metis (no_types, lifting) diff_zero length_upt map_of_zip_nth nth_upt plus_nat.add_0)

lemma distinct_ranked: "distinct (ranked_tokens tss)"
  by (simp add: ranked_tokens_def)

lemma set_ranked: "set (ranked_tokens tss) = \<Union> (set ` set tss)"
  by (simp add: ranked_tokens_def)

lemma sorted_ranked: "sorted (map (\<lambda>t. (doc_freq tss t, t)) (ranked_tokens tss))"
  by (simp add: ranked_tokens_def)

lemma ordering_dom: "dom (gen_token_ordering_for_lists tss) = \<Union> (set ` set tss)"
  by (simp add: gen_token_ordering_for_lists_def Let_def set_ranked[symmetric])

lemma ordering_nth:
  "i < length (ranked_tokens tss) \<Longrightarrow>
   gen_token_ordering_for_lists tss (ranked_tokens tss ! i) = Some i"
  by (simp add: gen_token_ordering_for_lists_def Let_def map_of_zip_upt distinct_ranked)

lemma ordering_rank_le:
  assumes "t \<in> \<Union> (set ` set tss)" "u \<in> \<Union> (set ` set tss)"
  shows "(the (gen_token_ordering_for_lists tss t) \<le> the (gen_token_ordering_for_lists tss u))
         = ((doc_freq tss t, t) \<le> (doc_freq tss u, u))"
proof -
  let ?R = "ranked_tokens tss"
  let ?key = "\<lambda>t. (doc_freq tss t, t)"
  from assms obtain i j where i: "i < length ?R" "?R ! i = t" and j: "j < length ?R" "?R ! j = u"
    by (metis in_set_conv_nth set_ranked)
  have ri: "the (gen_token_ordering_for_lists tss t) = i" using ordering_nth[OF i(1)] i(2) by simp
  have rj: "the (gen_token_ordering_for_lists tss u) = j" using ordering_nth[OF j(1)] j(2) by simp
  have mono: "\<And>a b. a \<le> b \<Longrightarrow> b < length ?R \<Longrightarrow> ?key (?R ! a) \<le> ?key (?R ! b)"
    using sorted_ranked[of tss] by (simp add: sorted_iff_nth_mono)
  show ?thesis
  proof
    assume "the (gen_token_ordering_for_lists tss t) \<le> the (gen_token_ordering_for_lists tss u)"
    then have "i \<le> j" using ri rj by simp
    then show "?key t \<le> ?key u" using mono[of i j] j i by simp
  next
    assume le: "?key t \<le> ?key u"
    show "the (gen_token_ordering_for_lists tss t) \<le> the (gen_token_ordering_for_lists tss u)"
    proof (rule ccontr)
      assume "\<not> ?thesis"
      then have "j \<le> i" using ri rj by simp
      then have "?key u \<le> ?key t" using mono[of j i] i j by simp
      with le have "?key t = ?key u" by (rule order.antisym)
      then have "t = u" by simp
      then have "?R ! i = ?R ! j" using i j by simp
      then have "i = j" using i(1) j(1) distinct_ranked[of tss] nth_eq_iff_index_eq by blast
      with \<open>\<not> ?thesis\<close> ri rj show False by simp
    qed
  qed
qed

lemma order_using_ok:
  assumes "set toks \<subseteq> \<Union> (set ` set tss)"
  shows "order_using_token_ordering toks (gen_token_ordering_for_lists tss)
         = Inr (sort_key (\<lambda>t. (doc_freq tss t, t)) toks)"
proof -
  have "\<not> (\<exists>t \<in> set toks. gen_token_ordering_for_lists tss t = None)"
    using assms ordering_dom[of tss] by (metis domIff subsetD)
  moreover have "sort_key (\<lambda>t. the (gen_token_ordering_for_lists tss t)) toks
        = sort_key (\<lambda>t. (doc_freq tss t, t)) toks"
    by (rule sort_key_cong_rel) (use assms ordering_rank_le in blast)
  ultimately show ?thesis by (simp add: order_using_token_ordering_def)
qed

text \<open>
  The ranks are the positions in the list sorted by (frequency, token); sorting by rank
  is sorting by that key, and no token of the covered sets is without a rank.
\<close>

section \<open>The single-pair predicate\<close>

lemma py_prefix_nonneg: "0 \<le> k \<Longrightarrow> py_prefix xs k = take (nat k) xs"
  by (simp add: py_prefix_def)

lemma filter_pair_nonempty:
  assumes "l \<noteq> []" "r \<noteq> []"
  shows "filter_pair gpl self (Some l) (Some r) =
     Inr (set (py_prefix (pair_ordered_tokens (tokenizer self) l r l)
                 (gpl (length (pair_ordered_tokens (tokenizer self) l r l)) (sim_measure_type self) (threshold self)))
          \<inter> set (py_prefix (pair_ordered_tokens (tokenizer self) l r r)
                 (gpl (length (pair_ordered_tokens (tokenizer self) l r r)) (sim_measure_type self) (threshold self)))
          = {})"
proof -
  let ?L = "remdups (tokenizer self l)" and ?R = "remdups (tokenizer self r)"
  have l: "order_using_token_ordering ?L (gen_token_ordering_for_lists [?L, ?R])
           = Inr (pair_ordered_tokens (tokenizer self) l r l)"
    unfolding pair_ordered_tokens_def by (rule order_using_ok) simp
  have r: "order_using_token_ordering ?R (gen_token_ordering_for_lists [?L, ?R])
           = Inr (pair_ordered_tokens (tokenizer self) l r r)"
    unfolding pair_ordered_tokens_def by (rule order_using_ok) simp
  have ov: "\<And>xs ys. (0 < length (filter (\<lambda>t. t \<in> set ys) (remdups xs))) = (set xs \<inter> set ys \<noteq> {})"
    by (auto simp: filter_empty_conv)
  show ?thesis
    using assms by (simp add: filter_pair_def py_not_def py_set_def l r Let_def ov del: length_greater_0_conv)
qed

text \<open>
  Claim C1. \<^verbatim>\<open>filter_pair\<close> returns true (drop) when either input is empty or null.
  For two non-empty strings whose prefix lengths are not negative it returns true exactly
  when the first \<open>kl\<close> tokens of the left ordered token sequence and the first \<open>kr\<close>
  tokens of the right one share no token, where \<open>kl\<close> and \<open>kr\<close> are the prefix lengths
  computed from the sizes of the token sets, the measure and the threshold; it returns
  false (keep) otherwise, and it raises no error.
\<close>

theorem filter_pair_spec:
  fixes gpl :: "nat \<Rightarrow> 'm \<Rightarrow> 'th \<Rightarrow> int" and self :: "('t::linorder, 'm, 'th) PrefixFilter"
  shows "(py_not ls \<or> py_not rs \<longrightarrow> filter_pair gpl self ls rs = Inr True) \<and>
         (let otl = pair_ordered_tokens (tokenizer self) l r l;
              otr = pair_ordered_tokens (tokenizer self) l r r;
              kl = gpl (length otl) (sim_measure_type self) (threshold self);
              kr = gpl (length otr) (sim_measure_type self) (threshold self)
          in l \<noteq> [] \<and> r \<noteq> [] \<and> 0 \<le> kl \<and> 0 \<le> kr \<longrightarrow>
             filter_pair gpl self (Some l) (Some r)
               = Inr (set (take (nat kl) otl) \<inter> set (take (nat kr) otr) = {}))"
proof (intro conjI)
  show "py_not ls \<or> py_not rs \<longrightarrow> filter_pair gpl self ls rs = Inr True"
    by (simp add: filter_pair_def)
next
  show "let otl = pair_ordered_tokens (tokenizer self) l r l;
            otr = pair_ordered_tokens (tokenizer self) l r r;
            kl = gpl (length otl) (sim_measure_type self) (threshold self);
            kr = gpl (length otr) (sim_measure_type self) (threshold self)
        in l \<noteq> [] \<and> r \<noteq> [] \<and> 0 \<le> kl \<and> 0 \<le> kr \<longrightarrow>
           filter_pair gpl self (Some l) (Some r)
             = Inr (set (take (nat kl) otl) \<inter> set (take (nat kr) otr) = {})"
    using filter_pair_nonempty[of l r gpl self]
    by (simp add: py_prefix_nonneg Let_def)
qed

theorem filter_pair_spec_witness:
  "py_not (Some []) \<and> ''ab'' \<noteq> [] \<and> ''bc'' \<noteq> [] \<and>
   filter_pair (\<lambda>n m t. 1) \<lparr>tokenizer = (\<lambda>s. s), sim_measure_type = (), threshold = ()\<rparr>
     (Some []) (Some ''bc'') = Inr True \<and>
   filter_pair (\<lambda>n m t. 1) \<lparr>tokenizer = (\<lambda>s. s), sim_measure_type = (), threshold = ()\<rparr>
     (Some ''ab'') (Some ''bc'') = Inr True"
  using filter_pair_spec [of "Some []" "Some ''bc''" "\<lambda>n m t. 1"
      "\<lparr>tokenizer = (\<lambda>s. s), sim_measure_type = (), threshold = ()\<rparr>" "''ab''" "''bc''"]
  by (simp add: pair_ordered_tokens_def doc_freq_def py_not_def)

text \<open>
  Claim C10. For a non-empty string with a non-empty token set, and a prefix length
  calculator that returns a value in \<open>[1, n]\<close> for \<open>n \<ge> 1\<close>, \<^verbatim>\<open>filter_pair(s, s)\<close>
  returns false: the pair is kept.
\<close>

theorem filter_pair_self:
  fixes gpl :: "nat \<Rightarrow> 'm \<Rightarrow> 'th \<Rightarrow> int" and self :: "('t::linorder, 'm, 'th) PrefixFilter"
  assumes "s \<noteq> []" and "tokenizer self s \<noteq> []"
    and "\<forall>n\<ge>1. 1 \<le> gpl n (sim_measure_type self) (threshold self)
                 \<and> gpl n (sim_measure_type self) (threshold self) \<le> int n"
  shows "filter_pair gpl self (Some s) (Some s) = Inr False"
proof -
  let ?o = "pair_ordered_tokens (tokenizer self) s s s"
  let ?k = "gpl (length ?o) (sim_measure_type self) (threshold self)"
  have "length ?o = length (remdups (tokenizer self s))" by (simp add: pair_ordered_tokens_def)
  moreover have "remdups (tokenizer self s) \<noteq> []" using assms(2) by simp
  ultimately have "?o \<noteq> []" by (metis length_0_conv)
  then have len: "1 \<le> length ?o" by (cases ?o) simp_all
  then have k: "1 \<le> ?k" using assms(3) by blast
  then have "py_prefix ?o ?k = take (nat ?k) ?o" by (simp add: py_prefix_nonneg)
  moreover have "hd ?o \<in> set (take (nat ?k) ?o)"
    using \<open>?o \<noteq> []\<close> k by (cases ?o; cases "nat ?k") simp_all
  ultimately have "set (py_prefix ?o ?k) \<inter> set (py_prefix ?o ?k) \<noteq> {}" by auto
  then show ?thesis using filter_pair_nonempty[OF assms(1) assms(1), of gpl self] by simp
qed

theorem filter_pair_self_witness:
  "''ab'' \<noteq> [] \<and>
   tokenizer \<lparr>tokenizer = (\<lambda>s. s), sim_measure_type = (), threshold = ()\<rparr> ''ab'' \<noteq> [] \<and>
   filter_pair (\<lambda>n m t. 1) \<lparr>tokenizer = (\<lambda>s. s), sim_measure_type = (), threshold = ()\<rparr>
     (Some ''ab'') (Some ''ab'') = Inr False"
  using filter_pair_self [of "''ab''" "\<lparr>tokenizer = (\<lambda>s. s), sim_measure_type = (), threshold = ()\<rparr>"
      "\<lambda>n m t. 1"]
  by simp

section \<open>The batch filter in closed form\<close>

lemma number_rows_append:
  "number_rows f cid (xs @ ys) = number_rows f cid xs @ number_rows f (cid + int (length xs)) ys"
  by (induction xs arbitrary: cid) (simp_all add: add.assoc)

lemma length_number_rows [simp]: "length (number_rows f cid xs) = length xs"
  by (induction xs arbitrary: cid) simp_all

lemma emit_rows_closed:
  assumes "has_out \<Longrightarrow> \<forall>c \<in> set cands. map_of ltable_dict c \<noteq> None"
  shows "emit_rows has_out ltable_dict r_row (r_row ! rk) li ri cands (out, cid)
         = Inr (out @ number_rows (make_row has_out ltable_dict rk li ri) cid
                        (map (\<lambda>c. (c, r_row)) cands),
                cid + int (length cands))"
  using assms
proof (induction cands arbitrary: out cid)
  case Nil
  then show ?case by simp
next
  case (Cons c cands)
  show ?case
  proof (cases has_out)
    case True
    then obtain l_row where l: "map_of ltable_dict c = Some l_row" using Cons.prems by auto
    have "emit_rows has_out ltable_dict r_row (r_row ! rk) li ri (c # cands) (out, cid)
          = emit_rows has_out ltable_dict r_row (r_row ! rk) li ri cands
              (out @ [make_row has_out ltable_dict rk li ri cid (c, r_row)], cid + 1)"
      using True l by (simp add: make_row_def)
    also have "\<dots> = Inr ((out @ [make_row has_out ltable_dict rk li ri cid (c, r_row)])
                      @ number_rows (make_row has_out ltable_dict rk li ri) (cid + 1)
                          (map (\<lambda>c. (c, r_row)) cands),
                    cid + 1 + int (length cands))"
      by (rule Cons.IH) (use Cons.prems in simp)
    finally show ?thesis by simp
  next
    case False
    have "emit_rows has_out ltable_dict r_row (r_row ! rk) li ri (c # cands) (out, cid)
          = emit_rows has_out ltable_dict r_row (r_row ! rk) li ri cands
              (out @ [make_row has_out ltable_dict rk li ri cid (c, r_row)], cid + 1)"
      using False by (simp add: make_row_def)
    also have "\<dots> = Inr ((out @ [make_row has_out ltable_dict rk li ri cid (c, r_row)])
                      @ number_rows (make_row has_out ltable_dict rk li ri) (cid + 1)
                          (map (\<lambda>c. (c, r_row)) cands),
                    cid + 1 + int (length cands))"
      by (rule Cons.IH) (use False in simp)
    finally show ?thesis by simp
  qed
qed

lemma probe_rows_closed:
  assumes "\<forall>r \<in> set r_rows. py_str (r ! rf) \<noteq> [] \<longrightarrow>
             (\<exists>ot. order_using_token_ordering (py_set (tokenizer self (py_str (r ! rf)))) ord = Inr ot)"
    and "has_out \<Longrightarrow> \<forall>r \<in> set r_rows. \<forall>c \<in> set (row_candidates gpl self ord idx rf r).
             map_of ltable_dict c \<noteq> None"
  shows "probe_rows gpl self ord idx has_out ltable_dict rk rf li ri r_rows (out, cid)
         = Inr (out @ number_rows (make_row has_out ltable_dict rk li ri) cid
                        (candidate_pairs gpl self ord idx rf r_rows),
                cid + int (length (candidate_pairs gpl self ord idx rf r_rows)))"
  using assms
proof (induction r_rows arbitrary: out cid)
  case Nil
  then show ?case by (simp add: candidate_pairs_def)
next
  case (Cons r r_rows)
  let ?mk = "make_row has_out ltable_dict rk li ri"
  have IH: "\<And>out cid. probe_rows gpl self ord idx has_out ltable_dict rk rf li ri r_rows (out, cid)
         = Inr (out @ number_rows ?mk cid (candidate_pairs gpl self ord idx rf r_rows),
                cid + int (length (candidate_pairs gpl self ord idx rf r_rows)))"
    by (rule Cons.IH) (use Cons.prems in simp_all)
  have cp: "candidate_pairs gpl self ord idx rf (r # r_rows)
        = map (\<lambda>c. (c, r)) (row_candidates gpl self ord idx rf r) @ candidate_pairs gpl self ord idx rf r_rows"
    by (simp add: candidate_pairs_def)
  show ?case
  proof (cases "py_str (r ! rf) = []")
    case True
    then have "row_candidates gpl self ord idx rf r = []" by (simp add: row_candidates_def)
    then show ?thesis using True IH cp by (simp add: Let_def)
  next
    case False
    then obtain ot where ot: "order_using_token_ordering (py_set (tokenizer self (py_str (r ! rf)))) ord = Inr ot"
      using Cons.prems(1) by auto
    let ?cands = "find_candidates idx (py_prefix ot (gpl (length ot) (sim_measure_type self) (threshold self)))"
    have rc: "row_candidates gpl self ord idx rf r = ?cands"
      using False ot by (simp add: row_candidates_def)
    have em: "emit_rows has_out ltable_dict r (r ! rk) li ri ?cands (out, cid)
          = Inr (out @ number_rows ?mk cid (map (\<lambda>c. (c, r)) ?cands), cid + int (length ?cands))"
      by (rule emit_rows_closed) (use Cons.prems(2) rc in simp)
    show ?thesis
      using False ot em IH cp rc
      by (simp add: Let_def number_rows_append add.assoc)
  qed
qed

lemma dict_set_keys:
  "map fst (dict_set d k v) = (if k \<in> set (map fst d) then map fst d else map fst d @ [k])"
  by (induction d k v rule: dict_set.induct) auto

lemma dict_set_distinct: "distinct (map fst d) \<Longrightarrow> distinct (map fst (dict_set d k v))"
  by (simp add: dict_set_keys)



lemma dict_set_values_subset: "set (map snd (dict_set d k v)) \<subseteq> insert v (set (map snd d))"
  by (induction d k v rule: dict_set.induct) auto

lemma dict_of_rows_distinct: "distinct (map fst d) \<Longrightarrow> distinct (map fst (dict_of_rows ki rs d))"
  unfolding dict_of_rows_def by (induction rs arbitrary: d) (simp_all add: dict_set_distinct)


lemma dict_set_keys_set: "set (map fst (dict_set d k v)) = insert k (set (map fst d))"
  by (auto simp: dict_set_keys)

lemma dict_of_rows_keys_set:
  "set (map fst (dict_of_rows ki rs d)) = set (map fst d) \<union> (\<lambda>row. row ! ki) ` set rs"
  unfolding dict_of_rows_def
proof (induction rs arbitrary: d)
  case Nil
  then show ?case by simp
next
  case (Cons r rs)
  have "set (map fst (fold (\<lambda>row d. dict_set d (row ! ki) row) rs (dict_set d (r ! ki) r)))
        = set (map fst (dict_set d (r ! ki) r)) \<union> (\<lambda>row. row ! ki) ` set rs"
    by (rule Cons.IH)
  then show ?case using dict_set_keys_set[of d "r ! ki" r] by auto
qed

lemma dict_of_rows_entries:
  assumes "\<forall>(k, row) \<in> set d. row ! ki = k"
  shows "\<forall>(k, row) \<in> set (dict_of_rows ki rs d). row ! ki = k"
  using assms unfolding dict_of_rows_def
proof (induction rs arbitrary: d)
  case Nil
  then show ?case by simp
next
  case (Cons r rs)
  have "\<forall>(k, row) \<in> set (dict_set d (r ! ki) r). row ! ki = k"
    using Cons.prems by (induction d "r ! ki" r rule: dict_set.induct) auto
  then show ?case using Cons.IH by simp
qed

lemma dict_of_rows_values_subset:
  "set (map snd (dict_of_rows ki rs d)) \<subseteq> set (map snd d) \<union> set rs"
  unfolding dict_of_rows_def
proof (induction rs arbitrary: d)
  case Nil
  then show ?case by simp
next
  case (Cons r rs)
  have "set (map snd (fold (\<lambda>row d. dict_set d (row ! ki) row) rs (dict_set d (r ! ki) r)))
        \<subseteq> set (map snd (dict_set d (r ! ki) r)) \<union> set rs" by (rule Cons.IH)
  also have "\<dots> \<subseteq> insert r (set (map snd d)) \<union> set rs"
    using dict_set_values_subset[of d "r ! ki" r] by auto
  finally show ?case by auto
qed


lemma build_table_dict_alt: "build_table_dict ki rs = dict_of_rows ki rs []"
  by (simp add: build_table_dict_def dict_of_rows_def)

lemma build_table_dict_distinct: "distinct (map fst (build_table_dict ki rs))"
  by (simp add: build_table_dict_alt dict_of_rows_distinct)

lemma build_table_dict_key: "(k, row) \<in> set (build_table_dict ki rs) \<Longrightarrow> row ! ki = k"
  using dict_of_rows_entries[of "[]" ki rs] by (auto simp: build_table_dict_alt)

lemma build_table_dict_values_keys_distinct:
  "distinct (map (\<lambda>row. row ! ki) (dict_values (build_table_dict ki rs)))"
proof -
  have "map (\<lambda>row. row ! ki) (dict_values (build_table_dict ki rs)) = map fst (build_table_dict ki rs)"
    using build_table_dict_key[of _ _ ki rs] by (auto simp: dict_values_def)
  then show ?thesis by (simp add: build_table_dict_distinct)
qed

lemma build_table_dict_lookup:
  "row \<in> set (dict_values (build_table_dict ki rs)) \<Longrightarrow> map_of (build_table_dict ki rs) (row ! ki) = Some row"
proof -
  assume "row \<in> set (dict_values (build_table_dict ki rs))"
  then obtain k where m: "(k, row) \<in> set (build_table_dict ki rs)" by (auto simp: dict_values_def)
  then have "row ! ki = k" by (rule build_table_dict_key)
  then show ?thesis using m build_table_dict_distinct[of ki rs] by simp
qed

lemma build_table_dict_values_subset: "set (dict_values (build_table_dict ki rs)) \<subseteq> set rs"
  using dict_of_rows_values_subset[of ki rs "[]"] by (simp add: build_table_dict_alt dict_values_def)



lemma set_set_add [simp]: "set (set_add xs x) = insert x (set xs)"
  by (auto simp: set_add_def)

lemma distinct_set_add [simp]: "distinct (set_add xs x) = distinct xs"
  by (auto simp: set_add_def)

lemma probe_index_insert:
  "probe (index_insert key token idx) t = (if t = token then set_add (probe idx t) key else probe idx t)"
  by (simp add: index_insert_def probe_def)

lemma probe_fold_insert_set:
  "set (probe (fold (index_insert key) toks idx) t)
     = (if t \<in> set toks then insert key (set (probe idx t)) else set (probe idx t))"
  by (induction toks arbitrary: idx) (auto simp: probe_index_insert)

lemma probe_fold_insert_distinct:
  "distinct (probe idx t) \<Longrightarrow> distinct (probe (fold (index_insert key) toks idx) t)"
proof (induction toks arbitrary: idx)
  case Nil
  then show ?case by simp
next
  case (Cons a toks)
  have "distinct (probe (index_insert key a idx) t)"
    using Cons.prems by (cases "t = a") (simp_all add: probe_index_insert)
  then have "distinct (probe (fold (index_insert key) toks (index_insert key a idx)) t)"
    by (rule Cons.IH)
  then show ?case by simp
qed

lemma order_using_table:
  assumes "set (tokenizer self s) \<subseteq> \<Union> (set ` set tss)"
  shows "order_using_token_ordering (py_set (tokenizer self s)) (gen_token_ordering_for_lists tss)
         = Inr (sort_key (\<lambda>t. (doc_freq tss t, t)) (remdups (tokenizer self s)))"
  unfolding py_set_def by (rule order_using_ok) (use assms in simp)

lemma prefix_index_build_closed:
  assumes "\<forall>row \<in> set rs. set (tokenizer self (py_str (row ! ti))) \<subseteq> \<Union> (set ` set tss)"
  shows "\<exists>idx'. prefix_index_build gpl rs ki ti (tokenizer self) (sim_measure_type self)
                   (threshold self) (gen_token_ordering_for_lists tss) idx = Inr idx' \<and>
           (\<forall>t. set (probe idx' t) = set (probe idx t) \<union>
                  {row ! ki | row. row \<in> set rs \<and> \<not> cell_empty (row ! ti) \<and>
                                   t \<in> set (table_prefix gpl self tss (row ! ti))}) \<and>
           ((\<forall>t. distinct (probe idx t)) \<longrightarrow> (\<forall>t. distinct (probe idx' t)))"
  using assms
proof (induction rs arbitrary: idx)
  case Nil
  then show ?case by simp
next
  case (Cons r rs)
  have cover: "\<forall>row \<in> set rs. set (tokenizer self (py_str (row ! ti))) \<subseteq> \<Union> (set ` set tss)"
    using Cons.prems by simp
  show ?case
  proof (cases "cell_empty (r ! ti)")
    case True
    from Cons.IH[OF cover, of idx] obtain idx' where
      b: "prefix_index_build gpl rs ki ti (tokenizer self) (sim_measure_type self)
                   (threshold self) (gen_token_ordering_for_lists tss) idx = Inr idx'"
      and s: "\<forall>t. set (probe idx' t) = set (probe idx t) \<union>
                  {row ! ki | row. row \<in> set rs \<and> \<not> cell_empty (row ! ti) \<and>
                                   t \<in> set (table_prefix gpl self tss (row ! ti))}"
      and d: "(\<forall>t. distinct (probe idx t)) \<longrightarrow> (\<forall>t. distinct (probe idx' t))"
      by blast
    have "\<forall>t. set (probe idx' t) = set (probe idx t) \<union>
                  {row ! ki | row. row \<in> set (r # rs) \<and> \<not> cell_empty (row ! ti) \<and>
                                   t \<in> set (table_prefix gpl self tss (row ! ti))}"
      using s True by auto
    then show ?thesis using True b d by auto
  next
    case False
    let ?ot = "sort_key (\<lambda>t. (doc_freq tss t, t)) (remdups (tokenizer self (py_str (r ! ti))))"
    let ?p = "table_prefix gpl self tss (r ! ti)"
    let ?idx1 = "fold (index_insert (r ! ki)) ?p idx"
    have ou: "order_using_token_ordering (py_set (tokenizer self (py_str (r ! ti))))
                (gen_token_ordering_for_lists tss) = Inr ?ot"
      by (rule order_using_table) (use Cons.prems in simp)
    from Cons.IH[OF cover, of ?idx1] obtain idx' where
      b: "prefix_index_build gpl rs ki ti (tokenizer self) (sim_measure_type self)
                   (threshold self) (gen_token_ordering_for_lists tss) ?idx1 = Inr idx'"
      and s: "\<forall>t. set (probe idx' t) = set (probe ?idx1 t) \<union>
                  {row ! ki | row. row \<in> set rs \<and> \<not> cell_empty (row ! ti) \<and>
                                   t \<in> set (table_prefix gpl self tss (row ! ti))}"
      and d: "(\<forall>t. distinct (probe ?idx1 t)) \<longrightarrow> (\<forall>t. distinct (probe idx' t))"
      by blast
    have b': "prefix_index_build gpl (r # rs) ki ti (tokenizer self) (sim_measure_type self)
                   (threshold self) (gen_token_ordering_for_lists tss) idx = Inr idx'"
      using False ou b by (simp add: table_prefix_def Let_def)
    have s': "\<forall>t. set (probe idx' t) = set (probe idx t) \<union>
                  {row ! ki | row. row \<in> set (r # rs) \<and> \<not> cell_empty (row ! ti) \<and>
                                   t \<in> set (table_prefix gpl self tss (row ! ti))}"
    proof
      fix t
      show "set (probe idx' t) = set (probe idx t) \<union>
                  {row ! ki | row. row \<in> set (r # rs) \<and> \<not> cell_empty (row ! ti) \<and>
                                   t \<in> set (table_prefix gpl self tss (row ! ti))}"
        using s[rule_format, of t] False
        by (auto simp: probe_fold_insert_set split: if_splits)
    qed
    have d': "(\<forall>t. distinct (probe idx t)) \<longrightarrow> (\<forall>t. distinct (probe idx' t))"
    proof
      assume a: "\<forall>t. distinct (probe idx t)"
      have "\<forall>t. distinct (probe ?idx1 t)"
        using a by (simp add: probe_fold_insert_distinct)
      then show "\<forall>t. distinct (probe idx' t)" using d by simp
    qed
    show ?thesis using b' s' d' by blast
  qed
qed

lemma fold_set_add_set: "set (fold (\<lambda>cand cs. set_add cs cand) xs acc) = set acc \<union> set xs"
  by (induction xs arbitrary: acc) auto

lemma fold_set_add_distinct: "distinct acc \<Longrightarrow> distinct (fold (\<lambda>cand cs. set_add cs cand) xs acc)"
  by (induction xs arbitrary: acc) auto

lemma find_candidates_fold_set:
  "set (fold (\<lambda>token candidates. fold (\<lambda>cand cs. set_add cs cand) (probe idx token) candidates) toks acc)
     = set acc \<union> (\<Union>t \<in> set toks. set (probe idx t))"
  by (induction toks arbitrary: acc) (simp_all add: fold_set_add_set Un_assoc)

lemma find_candidates_fold_distinct:
  "distinct acc \<Longrightarrow>
   distinct (fold (\<lambda>token candidates. fold (\<lambda>cand cs. set_add cs cand) (probe idx token) candidates) toks acc)"
  by (induction toks arbitrary: acc) (simp_all add: fold_set_add_distinct)

lemma set_find_candidates: "set (find_candidates idx toks) = (\<Union>t \<in> set toks. set (probe idx t))"
  by (simp add: find_candidates_def find_candidates_fold_set)

lemma distinct_find_candidates: "distinct (find_candidates idx toks)"
  by (simp add: find_candidates_def find_candidates_fold_distinct)

lemma distinct_row_candidates: "distinct (row_candidates gpl self ord idx rf r)"
  by (simp add: row_candidates_def distinct_find_candidates split: sum.splits)

lemma row_candidates_table:
  assumes "set (tokenizer self (py_str (r ! rf))) \<subseteq> \<Union> (set ` set tss)"
  shows "row_candidates gpl self (gen_token_ordering_for_lists tss) idx rf r
         = (if py_str (r ! rf) = [] then []
            else find_candidates idx (table_prefix gpl self tss (r ! rf)))"
  using order_using_table[OF assms]
  by (simp add: row_candidates_def table_prefix_def Let_def)

lemma table_token_sets_two:
  "table_token_sets [lv, rv] [lf, rf] tok
     = map (\<lambda>row. py_set (tok (py_str (row ! lf)))) lv @ map (\<lambda>row. py_set (tok (py_str (row ! rf)))) rv"
  by (simp add: table_token_sets_def)

lemma tables_cover_left:
  assumes "row \<in> set (table_records lk ltable)"
  shows "set (tokenizer self (py_str (row ! lf)))
           \<subseteq> \<Union> (set ` set (tables_token_sets self lk lf rk rf ltable rtable))"
proof -
  have "py_set (tokenizer self (py_str (row ! lf)))
          \<in> set (tables_token_sets self lk lf rk rf ltable rtable)"
    using assms by (simp add: tables_token_sets_def table_token_sets_two)
  moreover have "set (py_set (tokenizer self (py_str (row ! lf)))) = set (tokenizer self (py_str (row ! lf)))"
    by (simp add: py_set_def)
  ultimately show ?thesis by blast
qed

lemma tables_cover_right:
  assumes "row \<in> set (table_records rk rtable)"
  shows "set (tokenizer self (py_str (row ! rf)))
           \<subseteq> \<Union> (set ` set (tables_token_sets self lk lf rk rf ltable rtable))"
proof -
  have "py_set (tokenizer self (py_str (row ! rf)))
          \<in> set (tables_token_sets self lk lf rk rf ltable rtable)"
    using assms by (simp add: tables_token_sets_def table_token_sets_two)
  moreover have "set (py_set (tokenizer self (py_str (row ! rf)))) = set (tokenizer self (py_str (row ! rf)))"
    by (simp add: py_set_def)
  ultimately show ?thesis by blast
qed

lemma probe_empty [simp]: "probe Map.empty t = []"
  by (simp add: probe_def)

lemma built_index_props:
  fixes gpl :: "nat \<Rightarrow> 'm \<Rightarrow> 'th \<Rightarrow> int" and self :: "('t::linorder, 'm, 'th) PrefixFilter"
  shows "prefix_index_build gpl (table_records lk ltable) lk lf (tokenizer self)
             (sim_measure_type self) (threshold self)
             (gen_token_ordering_for_lists (tables_token_sets self lk lf rk rf ltable rtable)) Map.empty
         = Inr (built_index gpl self lk lf rk rf ltable rtable)"
    and "set (probe (built_index gpl self lk lf rk rf ltable rtable) t)
         = {row ! lk | row. row \<in> set (table_records lk ltable) \<and> \<not> cell_empty (row ! lf) \<and>
              t \<in> set (table_prefix gpl self (tables_token_sets self lk lf rk rf ltable rtable) (row ! lf))}"
    and "distinct (probe (built_index gpl self lk lf rk rf ltable rtable) t)"
proof -
  let ?tss = "tables_token_sets self lk lf rk rf ltable rtable"
  let ?idx = "built_index gpl self lk lf rk rf ltable rtable"
  have cover: "\<forall>row \<in> set (table_records lk ltable).
                 set (tokenizer self (py_str (row ! lf))) \<subseteq> \<Union> (set ` set ?tss)"
    by (intro ballI tables_cover_left)
  from prefix_index_build_closed[OF cover, of gpl lk Map.empty] obtain idx' where h:
    "prefix_index_build gpl (table_records lk ltable) lk lf (tokenizer self)
             (sim_measure_type self) (threshold self) (gen_token_ordering_for_lists ?tss) Map.empty
         = Inr idx' \<and>
     (\<forall>t. set (probe idx' t) = set (probe Map.empty t) \<union>
                  {row ! lk | row. row \<in> set (table_records lk ltable) \<and> \<not> cell_empty (row ! lf) \<and>
                                   t \<in> set (table_prefix gpl self ?tss (row ! lf))}) \<and>
     ((\<forall>t. distinct (probe (Map.empty :: 't \<rightharpoonup> cell list) t)) \<longrightarrow> (\<forall>t. distinct (probe idx' t)))"
    by (elim exE)
  note b = h[THEN conjunct1] and s = h[THEN conjunct2, THEN conjunct1]
    and d = h[THEN conjunct2, THEN conjunct2]
  have e: "?idx = idx'" using b by (simp add: built_index_def)
  show "prefix_index_build gpl (table_records lk ltable) lk lf (tokenizer self)
             (sim_measure_type self) (threshold self) (gen_token_ordering_for_lists ?tss) Map.empty
         = Inr ?idx" using b e by simp
  show "set (probe ?idx t) = {row ! lk | row. row \<in> set (table_records lk ltable) \<and>
                                 \<not> cell_empty (row ! lf) \<and> t \<in> set (table_prefix gpl self ?tss (row ! lf))}"
    using s e by simp
  show "distinct (probe ?idx t)" using d e by simp
qed

lemma table_candidates_set:
  assumes "r \<in> set (table_records rk rtable)"
  shows "set (table_candidates gpl self lk lf rk rf ltable rtable r)
         = set (matching_left_keys gpl self (tables_token_sets self lk lf rk rf ltable rtable)
                  lk lf (table_records lk ltable) rf r)"
proof -
  let ?tss = "tables_token_sets self lk lf rk rf ltable rtable"
  let ?idx = "built_index gpl self lk lf rk rf ltable rtable"
  have rc: "table_candidates gpl self lk lf rk rf ltable rtable r
         = (if py_str (r ! rf) = [] then []
            else find_candidates ?idx (table_prefix gpl self ?tss (r ! rf)))"
    unfolding table_candidates_def
    by (rule row_candidates_table) (rule tables_cover_right[OF assms])
  show ?thesis
  proof (cases "py_str (r ! rf) = []")
    case True
    then show ?thesis by (simp add: rc matching_left_keys_def)
  next
    case False
    show ?thesis
      using False
      by (auto simp: rc matching_left_keys_def set_find_candidates built_index_props(2))
  qed
qed

lemma distinct_table_candidates: "distinct (table_candidates gpl self lk lf rk rf ltable rtable r)"
  by (simp add: table_candidates_def distinct_row_candidates)

lemma table_candidates_keys:
  assumes "r \<in> set (table_records rk rtable)"
    and "c \<in> set (table_candidates gpl self lk lf rk rf ltable rtable r)"
  shows "\<exists>l \<in> set (table_records lk ltable). l ! lk = c \<and> \<not> cell_empty (l ! lf) \<and> py_str (r ! rf) \<noteq> []"
  using assms(2) unfolding table_candidates_set[OF assms(1)]
  by (auto simp: matching_left_keys_def split: if_splits)

lemma filter_tables_body_closed:
  "filter_tables_body gpl self ltable rtable (lk, lf, li) (rk, rf, ri) has_out hdr
   = Inr \<lparr>columns = hdr,
          rows = number_rows (make_row has_out (build_table_dict lk (rows ltable)) rk li ri) 1
                   (table_candidate_pairs gpl self lk lf rk rf ltable rtable)\<rparr>"
proof -
  let ?tss = "tables_token_sets self lk lf rk rf ltable rtable"
  let ?ord = "gen_token_ordering_for_lists ?tss"
  let ?idx = "built_index gpl self lk lf rk rf ltable rtable"
  let ?ld = "build_table_dict lk (rows ltable)"
  have ord: "gen_token_ordering_for_tables
               [dict_values ?ld, dict_values (build_table_dict rk (rows rtable))] [lf, rf] (tokenizer self)
             = ?ord"
    by (simp add: gen_token_ordering_for_tables_def tables_token_sets_def table_records_def)
  have b: "prefix_index_build gpl (dict_values ?ld) lk lf (tokenizer self)
             (sim_measure_type self) (threshold self) ?ord Map.empty = Inr ?idx"
    using built_index_props(1)[of gpl lk ltable lf self rk rf rtable] by (simp add: table_records_def)
  have a1: "\<forall>r \<in> set (table_records rk rtable). py_str (r ! rf) \<noteq> [] \<longrightarrow>
             (\<exists>ot. order_using_token_ordering (py_set (tokenizer self (py_str (r ! rf)))) ?ord = Inr ot)"
  proof (intro ballI impI)
    fix r assume "r \<in> set (table_records rk rtable)"
    from order_using_table[OF tables_cover_right[OF this]]
    show "\<exists>ot. order_using_token_ordering (py_set (tokenizer self (py_str (r ! rf)))) ?ord = Inr ot"
      by (rule exI)
  qed
  have a2: "has_out \<Longrightarrow> \<forall>r \<in> set (table_records rk rtable).
              \<forall>c \<in> set (row_candidates gpl self ?ord ?idx rf r). map_of ?ld c \<noteq> None"
  proof (intro ballI)
    fix r c
    assume r: "r \<in> set (table_records rk rtable)" and c: "c \<in> set (row_candidates gpl self ?ord ?idx rf r)"
    have "c \<in> set (table_candidates gpl self lk lf rk rf ltable rtable r)"
      using c by (simp add: table_candidates_def)
    from table_candidates_keys[OF r this]
    obtain l where "l \<in> set (table_records lk ltable)" "l ! lk = c"
      by blast
    then show "map_of ?ld c \<noteq> None"
      using build_table_dict_lookup[of l lk "rows ltable"] by (auto simp: table_records_def)
  qed
  have p: "probe_rows gpl self ?ord ?idx has_out ?ld rk rf li ri (table_records rk rtable) ([], 1)
        = Inr ([] @ number_rows (make_row has_out ?ld rk li ri) 1
                      (candidate_pairs gpl self ?ord ?idx rf (table_records rk rtable)),
               1 + int (length (candidate_pairs gpl self ?ord ?idx rf (table_records rk rtable))))"
    by (rule probe_rows_closed) (use a1 a2 in auto)
  have cp: "candidate_pairs gpl self ?ord ?idx rf (table_records rk rtable)
            = table_candidate_pairs gpl self lk lf rk rf ltable rtable"
    by (simp add: candidate_pairs_def table_candidate_pairs_def table_candidates_def)
  let ?ord' = "gen_token_ordering_for_tables
               [dict_values ?ld, dict_values (build_table_dict rk (rows rtable))] [lf, rf] (tokenizer self)"
  have b': "prefix_index_build gpl (dict_values ?ld) lk lf (tokenizer self)
             (sim_measure_type self) (threshold self) ?ord' Map.empty = Inr ?idx"
    using b by (simp only: ord)
  have p': "probe_rows gpl self ?ord' ?idx has_out ?ld rk rf li ri
              (dict_values (build_table_dict rk (rows rtable))) ([], 1)
        = Inr (number_rows (make_row has_out ?ld rk li ri) 1
                      (table_candidate_pairs gpl self lk lf rk rf ltable rtable),
               1 + int (length (table_candidate_pairs gpl self lk lf rk rf ltable rtable)))"
    using p unfolding cp ord by (simp only: table_records_def append_Nil)
  show ?thesis
    unfolding filter_tables_body_def
    by (simp only: Let_def prod.case b' p' sum.case)
qed

section \<open>Column lookups\<close>

lemma list_index_absent: "a \<notin> set cols \<Longrightarrow> list_index cols a = Inl UnknownField"
  by (induction cols) auto

lemma list_index_present: "a \<in> set cols \<Longrightarrow> \<exists>i. list_index cols a = Inr i"
  by (induction cols) auto

lemma list_index_error: "list_index cols a = Inl e \<Longrightarrow> e = UnknownField"
  by (induction cols arbitrary: e) (auto split: if_splits sum.splits)

lemma attr_indices_absent: "\<not> set as \<subseteq> set cols \<Longrightarrow> attr_indices cols as = Inl UnknownField"
proof (induction as)
  case Nil
  then show ?case by simp
next
  case (Cons a as)
  show ?case
  proof (cases "a \<in> set cols")
    case True
    then obtain i where "list_index cols a = Inr i" using list_index_present by blast
    moreover have "attr_indices cols as = Inl UnknownField" using Cons True by simp
    ultimately show ?thesis by simp
  next
    case False
    then show ?thesis by (simp add: list_index_absent)
  qed
qed

lemma attr_indices_present: "set as \<subseteq> set cols \<Longrightarrow> \<exists>is. attr_indices cols as = Inr is"
proof (induction as)
  case Nil
  then show ?case by simp
next
  case (Cons a as)
  then obtain i "is" where "list_index cols a = Inr i" "attr_indices cols as = Inr is"
    using list_index_present[of a cols] by auto
  then show ?case by simp
qed

lemma find_columns_absent:
  "\<not> names_present cols key_attr filter_attr out_attrs \<Longrightarrow>
   find_columns cols key_attr filter_attr out_attrs = Inl UnknownField"
proof -
  assume a: "\<not> names_present cols key_attr filter_attr out_attrs"
  show ?thesis
  proof (cases "key_attr \<in> set cols")
    case False
    then show ?thesis by (simp add: find_columns_def list_index_absent)
  next
    case k: True
    then obtain i where i: "list_index cols key_attr = Inr i" using list_index_present by blast
    show ?thesis
    proof (cases "filter_attr \<in> set cols")
      case False
      then show ?thesis by (simp add: find_columns_def i list_index_absent)
    next
      case True
      then obtain j where j: "list_index cols filter_attr = Inr j" using list_index_present by blast
      from a k True obtain as where "out_attrs = Some as" "\<not> set as \<subseteq> set cols"
        by (auto simp: names_present_def split: option.splits)
      then show ?thesis by (simp add: find_columns_def i j attr_indices_absent)
    qed
  qed
qed

lemma find_columns_present:
  assumes "names_present cols key_attr filter_attr out_attrs"
  shows "\<exists>k f is. find_columns cols key_attr filter_attr out_attrs = Inr (k, f, is)
           \<and> list_index cols key_attr = Inr k \<and> list_index cols filter_attr = Inr f"
proof -
  from assms obtain k f where kf: "list_index cols key_attr = Inr k" "list_index cols filter_attr = Inr f"
    using list_index_present unfolding names_present_def by blast
  have "\<exists>is. (case out_attrs of None \<Rightarrow> Inr [] | Some as \<Rightarrow> attr_indices cols as) = Inr is"
    using assms attr_indices_present by (auto simp: names_present_def split: option.splits)
  then obtain "is" where "(case out_attrs of None \<Rightarrow> Inr [] | Some as \<Rightarrow> attr_indices cols as) = Inr is"
    by blast
  then show ?thesis using kf by (simp add: find_columns_def)
qed

lemma find_columns_Inr:
  assumes "find_columns cols key_attr filter_attr out_attrs = Inr (k, f, is)"
  shows "list_index cols key_attr = Inr k" and "list_index cols filter_attr = Inr f"
    and "names_present cols key_attr filter_attr out_attrs"
proof -
  show "list_index cols key_attr = Inr k" "list_index cols filter_attr = Inr f"
    using assms by (auto simp: find_columns_def split: sum.splits)
  show "names_present cols key_attr filter_attr out_attrs"
    using assms find_columns_absent[of cols key_attr filter_attr out_attrs] by auto
qed

text \<open>
  Claim C4. When the key, the filter attribute or a requested output attribute of either
  table is not among the columns of that table, \<^verbatim>\<open>filter_tables\<close> fails with
  \<^verbatim>\<open>UnknownField\<close>. The failure is that of the column lookups, which come first: it holds
  for every content of the two tables, every tokenizer and every prefix length calculator,
  so neither the dictionaries, the token ordering, the prefix index nor an output row is
  reached.
\<close>

theorem filter_tables_unknown_field:
  assumes "\<not> names_present (columns ltable) l_key_attr l_filter_attr l_out_attrs \<or>
           \<not> names_present (columns rtable) r_key_attr r_filter_attr r_out_attrs"
  shows "filter_tables gpl self ltable rtable l_key_attr r_key_attr l_filter_attr r_filter_attr
           l_out_attrs r_out_attrs l_out_prefix r_out_prefix = Inl UnknownField"
proof (cases "names_present (columns ltable) l_key_attr l_filter_attr l_out_attrs")
  case False
  then show ?thesis by (simp add: filter_tables_def find_columns_absent)
next
  case True
  then obtain c where "find_columns (columns ltable) l_key_attr l_filter_attr l_out_attrs = Inr c"
    using find_columns_present by blast
  moreover have "find_columns (columns rtable) r_key_attr r_filter_attr r_out_attrs = Inl UnknownField"
    using assms True by (simp add: find_columns_absent)
  ultimately show ?thesis by (simp add: filter_tables_def)
qed

theorem filter_tables_unknown_field_witness:
  "\<not> names_present (columns \<lparr>columns = [''id'', ''name''], rows = []\<rparr>) ''id'' ''nam'' None \<and>
   filter_tables (\<lambda>n m t. int n) \<lparr>tokenizer = (\<lambda>s. s), sim_measure_type = (), threshold = ()\<rparr>
     \<lparr>columns = [''id'', ''name''], rows = [[PyInt 1, PyStr ''ab'']]\<rparr>
     \<lparr>columns = [''id'', ''name''], rows = []\<rparr>
     ''id'' ''id'' ''name'' ''nam'' None None ''l_'' ''r_'' = Inl UnknownField"
  using filter_tables_unknown_field [of "\<lparr>columns = [''id'', ''name''], rows = [[PyInt 1, PyStr ''ab'']]\<rparr>"
      "''id''" "''name''" None "\<lparr>columns = [''id'', ''name''], rows = []\<rparr>" "''id''" "''nam''" None
      "\<lambda>n m t. int n" "\<lparr>tokenizer = (\<lambda>s. s), sim_measure_type = (), threshold = ()\<rparr>" "''l_''" "''r_''"]
  by (simp add: names_present_def)

text \<open>
  When the column lookups succeed, \<^verbatim>\<open>filter_tables\<close> returns a table, and its rows are
  the numbered candidate pairs.
\<close>

lemma filter_tables_closed:
  assumes "find_columns (columns ltable) l_key_attr l_filter_attr l_out_attrs = Inr (lk, lf, li)"
    and "find_columns (columns rtable) r_key_attr r_filter_attr r_out_attrs = Inr (rk, rf, ri)"
  shows "filter_tables gpl self ltable rtable l_key_attr r_key_attr l_filter_attr r_filter_attr
           l_out_attrs r_out_attrs l_out_prefix r_out_prefix
         = Inr \<lparr>columns = get_output_header_from_tables ''_id'' l_key_attr r_key_attr
                            l_out_attrs r_out_attrs l_out_prefix r_out_prefix,
                rows = number_rows
                         (make_row (l_out_attrs \<noteq> None \<or> r_out_attrs \<noteq> None)
                            (build_table_dict lk (rows ltable)) rk li ri) 1
                         (table_candidate_pairs gpl self lk lf rk rf ltable rtable)\<rparr>"
  using assms by (simp only: filter_tables_def sum.case filter_tables_body_closed)

lemma filter_tables_Inr:
  assumes "filter_tables gpl self ltable rtable l_key_attr r_key_attr l_filter_attr r_filter_attr
             l_out_attrs r_out_attrs l_out_prefix r_out_prefix = Inr out"
  obtains lk lf li rk rf ri where
    "find_columns (columns ltable) l_key_attr l_filter_attr l_out_attrs = Inr (lk, lf, li)"
    "find_columns (columns rtable) r_key_attr r_filter_attr r_out_attrs = Inr (rk, rf, ri)"
    "rows out = number_rows
                  (make_row (l_out_attrs \<noteq> None \<or> r_out_attrs \<noteq> None)
                     (build_table_dict lk (rows ltable)) rk li ri) 1
                  (table_candidate_pairs gpl self lk lf rk rf ltable rtable)"
proof -
  from assms obtain lc where lc: "find_columns (columns ltable) l_key_attr l_filter_attr l_out_attrs = Inr lc"
    by (auto simp: filter_tables_def split: sum.splits)
  from assms lc obtain rc where rc: "find_columns (columns rtable) r_key_attr r_filter_attr r_out_attrs = Inr rc"
    by (auto simp: filter_tables_def split: sum.splits)
  obtain lk lf li where l: "lc = (lk, lf, li)" by (cases lc) auto
  obtain rk rf ri where r: "rc = (rk, rf, ri)" by (cases rc) auto
  have "rows out = number_rows
                  (make_row (l_out_attrs \<noteq> None \<or> r_out_attrs \<noteq> None)
                     (build_table_dict lk (rows ltable)) rk li ri) 1
                  (table_candidate_pairs gpl self lk lf rk rf ltable rtable)"
    using assms filter_tables_closed[OF lc[unfolded l] rc[unfolded r], of gpl self l_out_prefix r_out_prefix]
    by auto
  then show ?thesis using that lc rc l r by blast
qed

section \<open>Identifiers, order and uniqueness of the output rows\<close>

lemma number_rows_nth:
  "i < length xs \<Longrightarrow> number_rows f cid xs ! i = f (cid + int i) (xs ! i)"
proof (induction xs arbitrary: cid i)
  case Nil
  then show ?case by simp
next
  case (Cons x xs)
  show ?case
  proof (cases i)
    case 0
    then show ?thesis by simp
  next
    case (Suc j)
    then have "j < length xs" using Cons.prems by simp
    then have "number_rows f (cid + 1) xs ! j = f (cid + 1 + int j) (xs ! j)" by (rule Cons.IH)
    moreover have "cid + 1 + int j = cid + int i" using Suc by simp
    ultimately show ?thesis using Suc by simp
  qed
qed

lemma number_rows_mem:
  "row \<in> set (number_rows f cid xs) \<Longrightarrow> \<exists>i x. x \<in> set xs \<and> row = f i x"
proof (induction xs arbitrary: cid)
  case Nil
  then show ?case by simp
next
  case (Cons a xs)
  from Cons.prems have "row = f cid a \<or> row \<in> set (number_rows f (cid + 1) xs)" by simp
  then show ?case
  proof
    assume "row = f cid a"
    then show ?thesis by auto
  next
    assume "row \<in> set (number_rows f (cid + 1) xs)"
    then obtain i x where "x \<in> set xs" "row = f i x" using Cons.IH by blast
    then show ?thesis by auto
  qed
qed

lemma number_rows_map:
  "(\<And>i x. g (f i x) = h x) \<Longrightarrow> map g (number_rows f cid xs) = map h xs"
  by (induction xs arbitrary: cid) auto

lemma make_row_cells:
  "make_row has_out ld rk li ri cid p ! 0 = PyInt cid"
  "make_row has_out ld rk li ri cid p ! 1 = fst p"
  "make_row has_out ld rk li ri cid p ! 2 = snd p ! rk"
  by (cases p; simp add: make_row_def get_output_row_from_tables_def)+

lemma number_rows_concat_groups:
  "\<exists>groups. number_rows f cid (concat xss) = concat groups \<and> length groups = length xss \<and>
            (\<forall>j<length xss. \<exists>c. groups ! j = number_rows f c (xss ! j))"
proof (induction xss arbitrary: cid)
  case Nil
  then show ?case by simp
next
  case (Cons xs xss)
  from Cons.IH[of "cid + int (length xs)"] obtain groups where
    g: "number_rows f (cid + int (length xs)) (concat xss) = concat groups"
       "length groups = length xss"
       "\<forall>j<length xss. \<exists>c. groups ! j = number_rows f c (xss ! j)"
    by blast
  let ?gs = "number_rows f cid xs # groups"
  have "number_rows f cid (concat (xs # xss)) = concat ?gs"
    using g(1) by (simp add: number_rows_append)
  moreover have "length ?gs = length (xs # xss)" using g(2) by simp
  moreover have "\<forall>j<length (xs # xss). \<exists>c. ?gs ! j = number_rows f c ((xs # xss) ! j)"
  proof (intro allI impI)
    fix j assume "j < length (xs # xss)"
    then show "\<exists>c. ?gs ! j = number_rows f c ((xs # xss) ! j)"
      using g(3) by (cases j) auto
  qed
  ultimately show ?case by blast
qed

text \<open>
  Claim C5. In every output table the i-th row (counted from one) carries the identifier
  i: the identifiers start at 1 and grow by one per emitted row. The rows are the
  concatenation of one group per record of the right dictionary, in the iteration order
  of that dictionary, and every row of a group carries the key of its right record.
\<close>

theorem filter_tables_candidate_ids:
  assumes "filter_tables gpl self ltable rtable l_key_attr r_key_attr l_filter_attr r_filter_attr
             l_out_attrs r_out_attrs l_out_prefix r_out_prefix = Inr out"
  shows "(\<forall>i<length (rows out). rows out ! i ! 0 = PyInt (int i + 1)) \<and>
         (\<exists>rk groups. list_index (columns rtable) r_key_attr = Inr rk \<and>
            rows out = concat groups \<and>
            length groups = length (table_records rk rtable) \<and>
            (\<forall>j<length groups. \<forall>row \<in> set (groups ! j).
               row ! 2 = table_records rk rtable ! j ! rk))"
proof -
  from assms obtain lk lf li rk rf ri where
    lc: "find_columns (columns ltable) l_key_attr l_filter_attr l_out_attrs = Inr (lk, lf, li)"
    and rc: "find_columns (columns rtable) r_key_attr r_filter_attr r_out_attrs = Inr (rk, rf, ri)"
    and ro: "rows out = number_rows
                  (make_row (l_out_attrs \<noteq> None \<or> r_out_attrs \<noteq> None)
                     (build_table_dict lk (rows ltable)) rk li ri) 1
                  (table_candidate_pairs gpl self lk lf rk rf ltable rtable)"
    by (rule filter_tables_Inr)
  let ?mk = "make_row (l_out_attrs \<noteq> None \<or> r_out_attrs \<noteq> None)
                     (build_table_dict lk (rows ltable)) rk li ri"
  let ?ps = "table_candidate_pairs gpl self lk lf rk rf ltable rtable"
  let ?rv = "table_records rk rtable"
  let ?g = "\<lambda>r_row. map (\<lambda>cand. (cand, r_row)) (table_candidates gpl self lk lf rk rf ltable rtable r_row)"
  have ids: "\<forall>i<length (rows out). rows out ! i ! 0 = PyInt (int i + 1)"
  proof (intro allI impI)
    fix i assume i: "i < length (rows out)"
    then have "i < length ?ps" using ro by simp
    then have "rows out ! i = ?mk (1 + int i) (?ps ! i)" using ro by (simp add: number_rows_nth)
    then show "rows out ! i ! 0 = PyInt (int i + 1)"
      by (simp add: make_row_cells add.commute)
  qed
  have ps: "?ps = concat (map ?g ?rv)" by (simp add: table_candidate_pairs_def)
  from number_rows_concat_groups[of ?mk 1 "map ?g ?rv"] obtain groups where
    g: "number_rows ?mk 1 (concat (map ?g ?rv)) = concat groups"
       "length groups = length (map ?g ?rv)"
       "\<forall>j<length (map ?g ?rv). \<exists>c. groups ! j = number_rows ?mk c (map ?g ?rv ! j)"
    by blast
  have grp: "\<forall>j<length groups. \<forall>row \<in> set (groups ! j). row ! 2 = ?rv ! j ! rk"
  proof (intro allI impI ballI)
    fix j row assume j: "j < length groups" and row: "row \<in> set (groups ! j)"
    from j g(2) have j': "j < length ?rv" by simp
    with g(3) obtain c where "groups ! j = number_rows ?mk c (?g (?rv ! j))" by auto
    with row obtain i x where "x \<in> set (?g (?rv ! j))" "row = ?mk i x"
      using number_rows_mem by metis
    then show "row ! 2 = ?rv ! j ! rk" by (auto simp: make_row_cells)
  qed
  have "list_index (columns rtable) r_key_attr = Inr rk" using rc by (rule find_columns_Inr(1))
  moreover have "rows out = concat groups" using ro ps g(1) by simp
  moreover have "length groups = length ?rv" using g(2) by simp
  ultimately show ?thesis using ids grp by blast
qed

lemma distinct_candidate_pairs:
  assumes "distinct (map k rv)" and "\<And>r. distinct (g r)"
  shows "distinct (concat (map (\<lambda>r. map (\<lambda>c. (c, k r)) (g r)) rv))"
  using assms(1)
proof (induction rv)
  case Nil
  then show ?case by simp
next
  case (Cons r rv)
  have "distinct (map (\<lambda>c. (c, k r)) (g r))"
    using assms(2) by (simp add: distinct_map inj_on_def)
  moreover have "distinct (concat (map (\<lambda>r. map (\<lambda>c. (c, k r)) (g r)) rv))"
    using Cons by simp
  moreover have "set (map (\<lambda>c. (c, k r)) (g r))
                 \<inter> set (concat (map (\<lambda>r. map (\<lambda>c. (c, k r)) (g r)) rv)) = {}"
    using Cons.prems by auto
  ultimately show ?case by simp
qed

text \<open>
  Claim C6. Each (left key, right key) pair appears in at most one output row: the
  candidates of one right record are collected in a set, and the right records come from
  a dictionary, one per key.
\<close>

theorem filter_tables_pairs_distinct:
  assumes "filter_tables gpl self ltable rtable l_key_attr r_key_attr l_filter_attr r_filter_attr
             l_out_attrs r_out_attrs l_out_prefix r_out_prefix = Inr out"
  shows "distinct (map (\<lambda>row. (row ! 1, row ! 2)) (rows out))"
proof -
  from assms obtain lk lf li rk rf ri where
    ro: "rows out = number_rows
                  (make_row (l_out_attrs \<noteq> None \<or> r_out_attrs \<noteq> None)
                     (build_table_dict lk (rows ltable)) rk li ri) 1
                  (table_candidate_pairs gpl self lk lf rk rf ltable rtable)"
    by (rule filter_tables_Inr)
  let ?mk = "make_row (l_out_attrs \<noteq> None \<or> r_out_attrs \<noteq> None)
                     (build_table_dict lk (rows ltable)) rk li ri"
  let ?ps = "table_candidate_pairs gpl self lk lf rk rf ltable rtable"
  have "map (\<lambda>row. (row ! 1, row ! 2)) (number_rows ?mk 1 ?ps) = map (\<lambda>p. (fst p, snd p ! rk)) ?ps"
    by (rule number_rows_map) (simp only: make_row_cells)
  also have "\<dots> = concat (map (\<lambda>r. map (\<lambda>c. (c, r ! rk))
                                (table_candidates gpl self lk lf rk rf ltable rtable r))
                          (table_records rk rtable))"
    by (simp add: table_candidate_pairs_def map_concat comp_def)
  finally have "map (\<lambda>row. (row ! 1, row ! 2)) (rows out)
        = concat (map (\<lambda>r. map (\<lambda>c. (c, r ! rk))
                                (table_candidates gpl self lk lf rk rf ltable rtable r))
                          (table_records rk rtable))"
    using ro by simp
  moreover have "distinct (concat (map (\<lambda>r. map (\<lambda>c. (c, r ! rk))
                                (table_candidates gpl self lk lf rk rf ltable rtable r))
                          (table_records rk rtable)))"
    by (rule distinct_candidate_pairs)
       (simp_all add: table_records_def build_table_dict_values_keys_distinct distinct_table_candidates)
  ultimately show ?thesis by simp
qed



lemma table_candidate_pairs_mem:
  assumes "(c, r) \<in> set (table_candidate_pairs gpl self lk lf rk rf ltable rtable)"
  shows "r \<in> set (table_records rk rtable)"
    and "c \<in> set (table_candidates gpl self lk lf rk rf ltable rtable r)"
  using assms by (auto simp: table_candidate_pairs_def)


section \<open>Runs on concrete tables\<close>

text \<open>The definitions that a run of \<^verbatim>\<open>filter_tables\<close> on concrete tables unfolds.\<close>

lemmas filter_tables_eval =
  filter_tables_def find_columns_def filter_tables_body_def build_table_dict_def dict_values_def
  gen_token_ordering_for_tables_def gen_token_ordering_for_lists_def table_token_sets_def
  ranked_tokens_def doc_freq_def py_set_def cell_empty_def order_using_token_ordering_def
  py_prefix_def index_insert_def probe_def set_add_def find_candidates_def
  get_output_header_from_tables_def get_output_row_from_tables_def Let_def

theorem filter_tables_candidate_ids_witness:
  "filter_tables (\<lambda>n m t. int n) \<lparr>tokenizer = (\<lambda>s. s), sim_measure_type = (), threshold = ()\<rparr>
     \<lparr>columns = [''id'', ''name''], rows = [[PyInt 1, PyStr ''ab''], [PyInt 2, PyStr ''cd'']]\<rparr>
     \<lparr>columns = [''id'', ''name''], rows = [[PyInt 1, PyStr ''bc''], [PyInt 2, PyStr '''']]\<rparr>
     ''id'' ''id'' ''name'' ''name'' None None ''l_'' ''r_''
   = Inr \<lparr>columns = [''_id'', ''l_id'', ''r_id''],
          rows = [[PyInt 1, PyInt 1, PyInt 1], [PyInt 2, PyInt 2, PyInt 1]]\<rparr> \<and>
   [[PyInt 1, PyInt 1, PyInt 1], [PyInt 2, PyInt 2, PyInt 1]] ! 1 ! 0 = PyInt (int 1 + 1)"
proof -
  have run: "filter_tables (\<lambda>n m t. int n) \<lparr>tokenizer = (\<lambda>s. s), sim_measure_type = (), threshold = ()\<rparr>
     \<lparr>columns = [''id'', ''name''], rows = [[PyInt 1, PyStr ''ab''], [PyInt 2, PyStr ''cd'']]\<rparr>
     \<lparr>columns = [''id'', ''name''], rows = [[PyInt 1, PyStr ''bc''], [PyInt 2, PyStr '''']]\<rparr>
     ''id'' ''id'' ''name'' ''name'' None None ''l_'' ''r_''
   = Inr \<lparr>columns = [''_id'', ''l_id'', ''r_id''],
          rows = [[PyInt 1, PyInt 1, PyInt 1], [PyInt 2, PyInt 2, PyInt 1]]\<rparr>"
    by (simp add: filter_tables_eval)
  from filter_tables_candidate_ids [OF run]
  have "\<forall>i<length [[PyInt 1, PyInt 1, PyInt 1], [PyInt 2, PyInt 2, PyInt 1]].
          [[PyInt 1, PyInt 1, PyInt 1], [PyInt 2, PyInt 2, PyInt 1]] ! i ! 0 = PyInt (int i + 1)"
    by simp
  then have "[[PyInt 1, PyInt 1, PyInt 1], [PyInt 2, PyInt 2, PyInt 1]] ! 1 ! 0 = PyInt (int 1 + 1)"
    by simp
  with run show ?thesis by (rule conjI)
qed

theorem filter_tables_pairs_distinct_witness:
  "filter_tables (\<lambda>n m t. int n) \<lparr>tokenizer = (\<lambda>s. s), sim_measure_type = (), threshold = ()\<rparr>
     \<lparr>columns = [''id'', ''name''], rows = [[PyInt 1, PyStr ''ab''], [PyInt 2, PyStr ''bc'']]\<rparr>
     \<lparr>columns = [''id'', ''name''], rows = [[PyInt 1, PyStr ''abc'']]\<rparr>
     ''id'' ''id'' ''name'' ''name'' None None ''l_'' ''r_''
   = Inr \<lparr>columns = [''_id'', ''l_id'', ''r_id''],
          rows = [[PyInt 1, PyInt 1, PyInt 1], [PyInt 2, PyInt 2, PyInt 1]]\<rparr> \<and>
   distinct (map (\<lambda>row. (row ! 1, row ! 2)) [[PyInt 1, PyInt 1, PyInt 1], [PyInt 2, PyInt 2, PyInt 1]])"
proof -
  have run: "filter_tables (\<lambda>n m t. int n) \<lparr>tokenizer = (\<lambda>s. s), sim_measure_type = (), threshold = ()\<rparr>
     \<lparr>columns = [''id'', ''name''], rows = [[PyInt 1, PyStr ''ab''], [PyInt 2, PyStr ''bc'']]\<rparr>
     \<lparr>columns = [''id'', ''name''], rows = [[PyInt 1, PyStr ''abc'']]\<rparr>
     ''id'' ''id'' ''name'' ''name'' None None ''l_'' ''r_''
   = Inr \<lparr>columns = [''_id'', ''l_id'', ''r_id''],
          rows = [[PyInt 1, PyInt 1, PyInt 1], [PyInt 2, PyInt 2, PyInt 1]]\<rparr>"
    by (simp add: filter_tables_eval)
  from filter_tables_pairs_distinct [OF run] run show ?thesis by simp
qed


section \<open>Records with an empty text field\<close>

text \<open>
  Every output row pairs a left record whose text field is neither null nor the empty
  string with a right record whose text field has a non-empty \<^verbatim>\<open>str\<close>. The left test is
  that of the prefix index of the design document, the right test is the one of the
  probing loop.
\<close>

lemma filter_tables_rows_nonempty_text:
  assumes "filter_tables gpl self ltable rtable l_key_attr r_key_attr l_filter_attr r_filter_attr
             l_out_attrs r_out_attrs l_out_prefix r_out_prefix = Inr out"
    and "row \<in> set (rows out)"
  shows "\<exists>lk lf rk rf l r.
           list_index (columns ltable) l_key_attr = Inr lk \<and>
           list_index (columns ltable) l_filter_attr = Inr lf \<and>
           list_index (columns rtable) r_key_attr = Inr rk \<and>
           list_index (columns rtable) r_filter_attr = Inr rf \<and>
           l \<in> set (table_records lk ltable) \<and> r \<in> set (table_records rk rtable) \<and>
           row ! 1 = l ! lk \<and> row ! 2 = r ! rk \<and>
           \<not> cell_empty (l ! lf) \<and> py_str (r ! rf) \<noteq> []"
proof -
  from assms(1) obtain lk lf li rk rf ri where
    lc: "find_columns (columns ltable) l_key_attr l_filter_attr l_out_attrs = Inr (lk, lf, li)"
    and rc: "find_columns (columns rtable) r_key_attr r_filter_attr r_out_attrs = Inr (rk, rf, ri)"
    and ro: "rows out = number_rows
                  (make_row (l_out_attrs \<noteq> None \<or> r_out_attrs \<noteq> None)
                     (build_table_dict lk (rows ltable)) rk li ri) 1
                  (table_candidate_pairs gpl self lk lf rk rf ltable rtable)"
    by (rule filter_tables_Inr)
  let ?mk = "make_row (l_out_attrs \<noteq> None \<or> r_out_attrs \<noteq> None)
                     (build_table_dict lk (rows ltable)) rk li ri"
  from assms(2) ro obtain i p where
    p: "p \<in> set (table_candidate_pairs gpl self lk lf rk rf ltable rtable)" and row: "row = ?mk i p"
    using number_rows_mem by metis
  obtain c r where cr: "p = (c, r)" by (cases p) auto
  have r: "r \<in> set (table_records rk rtable)"
    and c: "c \<in> set (table_candidates gpl self lk lf rk rf ltable rtable r)"
    using table_candidate_pairs_mem[OF p[unfolded cr]] by simp_all
  from table_candidates_keys[OF r c] obtain l where
    l: "l \<in> set (table_records lk ltable)" "l ! lk = c" "\<not> cell_empty (l ! lf)" "py_str (r ! rf) \<noteq> []"
    by blast
  have "row ! 1 = l ! lk" "row ! 2 = r ! rk"
    using row cr l(2) by (simp_all only: make_row_cells fst_conv snd_conv)
  then show ?thesis
    using find_columns_Inr(1,2)[OF lc] find_columns_Inr(1,2)[OF rc] l r by blast
qed

text \<open>
  Claim C3, where the code departs from it. The right record with key 7 has a null text
  field. The probing loop takes \<^verbatim>\<open>str\<close> of the field before it tests for the empty
  string, so the field reads \<^verbatim>\<open>None\<close>, four characters, and the record is paired with the
  left record whose text is the string \<^verbatim>\<open>None\<close>.
\<close>

theorem filter_tables_null_right_text:
  "filter_tables (\<lambda>n m t. int n) \<lparr>tokenizer = (\<lambda>s. s), sim_measure_type = (), threshold = ()\<rparr>
     \<lparr>columns = [''id'', ''name''], rows = [[PyInt 1, PyStr ''None'']]\<rparr>
     \<lparr>columns = [''id'', ''name''], rows = [[PyInt 7, PyNone]]\<rparr>
     ''id'' ''id'' ''name'' ''name'' None None ''l_'' ''r_''
   = Inr \<lparr>columns = [''_id'', ''l_id'', ''r_id''], rows = [[PyInt 1, PyInt 1, PyInt 7]]\<rparr>"
  by (simp add: filter_tables_eval)

theorem filter_tables_null_right_text_witness:
  "\<exists>out. filter_tables (\<lambda>n m t. int n) \<lparr>tokenizer = (\<lambda>s. s), sim_measure_type = (), threshold = ()\<rparr>
     \<lparr>columns = [''id'', ''name''], rows = [[PyInt 1, PyStr ''None'']]\<rparr>
     \<lparr>columns = [''id'', ''name''], rows = [[PyInt 7, PyNone]]\<rparr>
     ''id'' ''id'' ''name'' ''name'' None None ''l_'' ''r_'' = Inr out \<and>
     [PyInt 1, PyInt 1, PyInt 7] \<in> set (rows out)"
  using filter_tables_null_right_text by simp

section \<open>Monotonicity in the threshold\<close>

lemma py_prefix_mono:
  assumes "k2 \<le> k1" and "xs \<noteq> [] \<Longrightarrow> 0 \<le> k2"
  shows "set (py_prefix xs k2) \<subseteq> set (py_prefix xs k1)"
proof (cases "xs = []")
  case True
  then show ?thesis by (simp add: py_prefix_def)
next
  case False
  then have "0 \<le> k2" "0 \<le> k1" using assms by auto
  then have "py_prefix xs k2 = take (nat k2) xs" "py_prefix xs k1 = take (nat k1) xs"
    by (simp_all add: py_prefix_nonneg)
  moreover have "nat k2 \<le> nat k1" using assms(1) by simp
  ultimately show ?thesis by (simp add: set_take_subset_set_take)
qed

lemma table_prefix_mono:
  fixes gpl :: "nat \<Rightarrow> 'm \<Rightarrow> 'th \<Rightarrow> int" and self :: "('t::linorder, 'm, 'th) PrefixFilter"
  assumes "\<forall>n. gpl n (sim_measure_type self) tb \<le> gpl n (sim_measure_type self) ta"
    and "\<forall>n\<ge>1. 0 \<le> gpl n (sim_measure_type self) tb"
  shows "set (table_prefix gpl (self\<lparr>threshold := tb\<rparr>) tss c)
           \<subseteq> set (table_prefix gpl (self\<lparr>threshold := ta\<rparr>) tss c)"
proof -
  let ?ot = "sort_key (\<lambda>t. (doc_freq tss t, t)) (remdups (tokenizer self (py_str c)))"
  have "set (py_prefix ?ot (gpl (length ?ot) (sim_measure_type self) tb))
          \<subseteq> set (py_prefix ?ot (gpl (length ?ot) (sim_measure_type self) ta))"
  proof (rule py_prefix_mono)
    show "gpl (length ?ot) (sim_measure_type self) tb \<le> gpl (length ?ot) (sim_measure_type self) ta"
      using assms(1) by blast
    assume "?ot \<noteq> []"
    then have "1 \<le> length ?ot" by (cases ?ot) simp_all
    then show "0 \<le> gpl (length ?ot) (sim_measure_type self) tb" using assms(2) by blast
  qed
  then show ?thesis by (simp add: table_prefix_def Let_def)
qed

lemma tables_token_sets_threshold [simp]:
  "tables_token_sets (self\<lparr>threshold := t\<rparr>) lk lf rk rf ltable rtable
     = tables_token_sets self lk lf rk rf ltable rtable"
  by (simp add: tables_token_sets_def)

lemma matching_left_keys_mono:
  fixes gpl :: "nat \<Rightarrow> 'm \<Rightarrow> 'th \<Rightarrow> int" and self :: "('t::linorder, 'm, 'th) PrefixFilter"
  assumes "\<forall>n. gpl n (sim_measure_type self) tb \<le> gpl n (sim_measure_type self) ta"
    and "\<forall>n\<ge>1. 0 \<le> gpl n (sim_measure_type self) tb"
  shows "set (matching_left_keys gpl (self\<lparr>threshold := tb\<rparr>) tss lk lf l_rows rf r)
           \<subseteq> set (matching_left_keys gpl (self\<lparr>threshold := ta\<rparr>) tss lk lf l_rows rf r)"
proof -
  have sub: "\<And>c. set (table_prefix gpl (self\<lparr>threshold := tb\<rparr>) tss c)
           \<subseteq> set (table_prefix gpl (self\<lparr>threshold := ta\<rparr>) tss c)"
    using table_prefix_mono[where gpl=gpl and self=self and ta=ta and tb=tb and tss=tss, OF assms] by blast
  show ?thesis
  proof (cases "py_str (r ! rf) = []")
    case True
    then show ?thesis by (simp add: matching_left_keys_def)
  next
    case False
    show ?thesis
    proof
      fix k assume "k \<in> set (matching_left_keys gpl (self\<lparr>threshold := tb\<rparr>) tss lk lf l_rows rf r)"
      then obtain l t where l: "l \<in> set l_rows" "k = l ! lk" "\<not> cell_empty (l ! lf)"
        and t: "t \<in> set (table_prefix gpl (self\<lparr>threshold := tb\<rparr>) tss (l ! lf))"
               "t \<in> set (table_prefix gpl (self\<lparr>threshold := tb\<rparr>) tss (r ! rf))"
        using False by (auto simp: matching_left_keys_def)
      from t sub have "t \<in> set (table_prefix gpl (self\<lparr>threshold := ta\<rparr>) tss (l ! lf))"
               "t \<in> set (table_prefix gpl (self\<lparr>threshold := ta\<rparr>) tss (r ! rf))"
        by blast+
      then show "k \<in> set (matching_left_keys gpl (self\<lparr>threshold := ta\<rparr>) tss lk lf l_rows rf r)"
        using l False by (auto simp: matching_left_keys_def)
    qed
  qed
qed

lemma length_table_candidate_pairs:
  "length (table_candidate_pairs gpl self lk lf rk rf ltable rtable)
     = sum_list (map (\<lambda>r. length (table_candidates gpl self lk lf rk rf ltable rtable r))
                     (table_records rk rtable))"
  by (simp add: table_candidate_pairs_def length_concat comp_def)

lemma table_candidates_mono:
  fixes gpl :: "nat \<Rightarrow> 'm \<Rightarrow> 'th \<Rightarrow> int" and self :: "('t::linorder, 'm, 'th) PrefixFilter"
  assumes "\<forall>n. gpl n (sim_measure_type self) tb \<le> gpl n (sim_measure_type self) ta"
    and "\<forall>n\<ge>1. 0 \<le> gpl n (sim_measure_type self) tb"
    and "r \<in> set (table_records rk rtable)"
  shows "length (table_candidates gpl (self\<lparr>threshold := tb\<rparr>) lk lf rk rf ltable rtable r)
           \<le> length (table_candidates gpl (self\<lparr>threshold := ta\<rparr>) lk lf rk rf ltable rtable r)"
proof -
  let ?c2 = "table_candidates gpl (self\<lparr>threshold := tb\<rparr>) lk lf rk rf ltable rtable r"
  let ?c1 = "table_candidates gpl (self\<lparr>threshold := ta\<rparr>) lk lf rk rf ltable rtable r"
  have "set ?c2 \<subseteq> set ?c1"
    using matching_left_keys_mono[where gpl=gpl and self=self and ta=ta and tb=tb, OF assms(1,2)]
    by (simp add: table_candidates_set[OF assms(3)])
  then have "card (set ?c2) \<le> card (set ?c1)" by (simp add: card_mono)
  then show ?thesis by (simp add: distinct_card distinct_table_candidates)
qed

text \<open>
  Claim C8. With the tables, the tokenizer and the measure fixed, a greater threshold
  never gives more candidate rows, for a prefix length calculator that does not increase
  with the threshold and whose results are at least 1 for a token set that is not empty
  (the lower bound of the contract \<open>[1, n]\<close>).
\<close>

theorem filter_tables_threshold_monotone:
  fixes gpl :: "nat \<Rightarrow> 'm \<Rightarrow> ('th::order) \<Rightarrow> int" and self :: "('t::linorder, 'm, 'th) PrefixFilter"
  assumes "t1 \<le> t2"
    and "\<forall>n t t'. t \<le> t' \<longrightarrow> gpl n (sim_measure_type self) t' \<le> gpl n (sim_measure_type self) t"
    and "\<forall>n t. 1 \<le> n \<longrightarrow> 1 \<le> gpl n (sim_measure_type self) t"
    and "filter_tables gpl (self\<lparr>threshold := t1\<rparr>) ltable rtable l_key_attr r_key_attr
           l_filter_attr r_filter_attr l_out_attrs r_out_attrs l_out_prefix r_out_prefix = Inr out1"
    and "filter_tables gpl (self\<lparr>threshold := t2\<rparr>) ltable rtable l_key_attr r_key_attr
           l_filter_attr r_filter_attr l_out_attrs r_out_attrs l_out_prefix r_out_prefix = Inr out2"
  shows "length (rows out2) \<le> length (rows out1)"
proof -
  have mono: "\<forall>n. gpl n (sim_measure_type self) t2 \<le> gpl n (sim_measure_type self) t1"
    using assms(1,2) by blast
  have nonneg: "\<forall>n\<ge>1. 0 \<le> gpl n (sim_measure_type self) t2"
  proof (intro allI impI)
    fix n :: nat assume "1 \<le> n"
    then have "1 \<le> gpl n (sim_measure_type self) t2" using assms(3) by blast
    then show "0 \<le> gpl n (sim_measure_type self) t2" by simp
  qed
  from assms(4) obtain lk lf li rk rf ri where
    lc: "find_columns (columns ltable) l_key_attr l_filter_attr l_out_attrs = Inr (lk, lf, li)"
    and rc: "find_columns (columns rtable) r_key_attr r_filter_attr r_out_attrs = Inr (rk, rf, ri)"
    and r1: "rows out1 = number_rows
                  (make_row (l_out_attrs \<noteq> None \<or> r_out_attrs \<noteq> None)
                     (build_table_dict lk (rows ltable)) rk li ri) 1
                  (table_candidate_pairs gpl (self\<lparr>threshold := t1\<rparr>) lk lf rk rf ltable rtable)"
    by (rule filter_tables_Inr)
  have "rows out2 = number_rows
                  (make_row (l_out_attrs \<noteq> None \<or> r_out_attrs \<noteq> None)
                     (build_table_dict lk (rows ltable)) rk li ri) 1
                  (table_candidate_pairs gpl (self\<lparr>threshold := t2\<rparr>) lk lf rk rf ltable rtable)"
    using assms(5) filter_tables_closed[OF lc rc, of gpl "self\<lparr>threshold := t2\<rparr>" l_out_prefix r_out_prefix]
    by auto
  then have "length (rows out2)
        = sum_list (map (\<lambda>r. length (table_candidates gpl (self\<lparr>threshold := t2\<rparr>) lk lf rk rf ltable rtable r))
                     (table_records rk rtable))"
    by (simp add: length_table_candidate_pairs)
  also have "\<dots> \<le> sum_list (map (\<lambda>r. length (table_candidates gpl (self\<lparr>threshold := t1\<rparr>) lk lf rk rf ltable rtable r))
                     (table_records rk rtable))"
    by (rule sum_list_mono)
       (rule table_candidates_mono[where gpl=gpl and self=self and ta=t1 and tb=t2, OF mono nonneg])
  also have "\<dots> = length (rows out1)"
    using r1 by (simp add: length_table_candidate_pairs)
  finally show ?thesis .
qed

theorem filter_tables_threshold_monotone_witness:
  "(0::nat) \<le> 1 \<and>
   filter_tables (\<lambda>n m t. max 1 (int n - int t))
     (\<lparr>tokenizer = (\<lambda>s. s), sim_measure_type = (), threshold = 0\<rparr>\<lparr>threshold := 0\<rparr>)
     \<lparr>columns = [''id'', ''name''], rows = [[PyInt 1, PyStr ''ab'']]\<rparr>
     \<lparr>columns = [''id'', ''name''], rows = [[PyInt 1, PyStr ''bc'']]\<rparr>
     ''id'' ''id'' ''name'' ''name'' None None ''l_'' ''r_''
   = Inr \<lparr>columns = [''_id'', ''l_id'', ''r_id''], rows = [[PyInt 1, PyInt 1, PyInt 1]]\<rparr> \<and>
   filter_tables (\<lambda>n m t. max 1 (int n - int t))
     (\<lparr>tokenizer = (\<lambda>s. s), sim_measure_type = (), threshold = 0\<rparr>\<lparr>threshold := 1\<rparr>)
     \<lparr>columns = [''id'', ''name''], rows = [[PyInt 1, PyStr ''ab'']]\<rparr>
     \<lparr>columns = [''id'', ''name''], rows = [[PyInt 1, PyStr ''bc'']]\<rparr>
     ''id'' ''id'' ''name'' ''name'' None None ''l_'' ''r_''
   = Inr \<lparr>columns = [''_id'', ''l_id'', ''r_id''], rows = []\<rparr> \<and>
   length (rows \<lparr>columns = [''_id'', ''l_id'', ''r_id''], rows = []\<rparr>)
     \<le> length (rows \<lparr>columns = [''_id'', ''l_id'', ''r_id''], rows = [[PyInt 1, PyInt 1, PyInt 1]]\<rparr>)"
proof -
  let ?g = "\<lambda>(n::nat) (m::unit) (t::nat). max 1 (int n - int t)"
  let ?s = "\<lparr>tokenizer = (\<lambda>s. s), sim_measure_type = (), threshold = (0::nat)\<rparr>"
  have le: "(0::nat) \<le> 1" by simp
  have mono: "\<forall>n t t'. t \<le> t' \<longrightarrow> ?g n (sim_measure_type ?s) t' \<le> ?g n (sim_measure_type ?s) t"
    by auto
  have low: "\<forall>n t. 1 \<le> n \<longrightarrow> 1 \<le> ?g n (sim_measure_type ?s) t"
    by auto
  have run1: "filter_tables ?g (?s\<lparr>threshold := 0\<rparr>)
     \<lparr>columns = [''id'', ''name''], rows = [[PyInt 1, PyStr ''ab'']]\<rparr>
     \<lparr>columns = [''id'', ''name''], rows = [[PyInt 1, PyStr ''bc'']]\<rparr>
     ''id'' ''id'' ''name'' ''name'' None None ''l_'' ''r_''
   = Inr \<lparr>columns = [''_id'', ''l_id'', ''r_id''], rows = [[PyInt 1, PyInt 1, PyInt 1]]\<rparr>"
    by (simp add: filter_tables_eval)
  have run2: "filter_tables ?g (?s\<lparr>threshold := 1\<rparr>)
     \<lparr>columns = [''id'', ''name''], rows = [[PyInt 1, PyStr ''ab'']]\<rparr>
     \<lparr>columns = [''id'', ''name''], rows = [[PyInt 1, PyStr ''bc'']]\<rparr>
     ''id'' ''id'' ''name'' ''name'' None None ''l_'' ''r_''
   = Inr \<lparr>columns = [''_id'', ''l_id'', ''r_id''], rows = []\<rparr>"
    by (simp add: filter_tables_eval)
  from filter_tables_threshold_monotone [where gpl = ?g and self = ?s, OF le mono low run1 run2]
  show ?thesis using le run1 run2 by (intro conjI)
qed

section \<open>The token ordering depends on the token sets only\<close>









section \<open>Determinism\<close>









section \<open>Permuting the rows of the right table\<close>













end
